theory Spec2Isabelle
  imports Complex_Main "HOL-Library.Word"
begin

chapter \<open>The program\<close>

section \<open>Fast downsampling (\<^verbatim>\<open>fast_downsample\<close>)\<close>

text \<open>
  The class is a template over the native integer sample type \<^verbatim>\<open>T\<close>
  (the source comment names \<^verbatim>\<open>uint16_t\<close>).  A value of \<^verbatim>\<open>T\<close> is a machine
  word \<^typ>\<open>'w word\<close> of the width of the type, read as an unsigned or as a
  two's complement number according to the signedness of \<^verbatim>\<open>T\<close>, which the model
  takes as a parameter.  \<^verbatim>\<open>>>\<close> is the logical right shift \<^const>\<open>drop_bit\<close>
  for an unsigned type and the arithmetic right shift \<^const>\<open>signed_drop_bit\<close> for a
  signed one; both round towards minus infinity.
\<close>

datatype signedness = Signed | Unsigned

definition shift_right :: "signedness \<Rightarrow> ('w::len) word \<Rightarrow> nat \<Rightarrow> 'w word" where
  "shift_right sg w n = (case sg of Signed \<Rightarrow> signed_drop_bit n w | Unsigned \<Rightarrow> drop_bit n w)"

text \<open>The number that a word stands for.\<close>

definition value_of :: "signedness \<Rightarrow> ('w::len) word \<Rightarrow> int" where
  "value_of sg w = (case sg of Signed \<Rightarrow> sint w | Unsigned \<Rightarrow> uint w)"

text \<open>
  The member \<^verbatim>\<open>x\<close> is the field \<open>fd_x\<close>.  The sums of the call operator
  are sums of words, taken modulo \<open>2 ^ LENGTH('w)\<close>: this is what the code computes
  for an unsigned \<^verbatim>\<open>T\<close>, and for a \<^verbatim>\<open>T\<close> narrower than \<^verbatim>\<open>int\<close>, whose sum
  is computed in \<^verbatim>\<open>int\<close> and reduced on the conversion back to \<^verbatim>\<open>T\<close>.  For a
  signed \<^verbatim>\<open>T\<close> as wide as \<^verbatim>\<open>int\<close> a sum that leaves the range of the type has
  no defined value in C++; the properties below show that from a fresh instance on no
  sum leaves the range.
\<close>

record 't fast_downsample =
  fd_x :: "'t"

definition fast_downsample_init :: "('w::len) word fast_downsample" where
  "fast_downsample_init = \<lparr>fd_x = 0\<rparr>"

definition fast_downsample_call ::
  "signedness \<Rightarrow> ('w::len) word fast_downsample \<Rightarrow> 'w word \<Rightarrow> 'w word
     \<Rightarrow> 'w word \<times> 'w word fast_downsample" where
  "fast_downsample_call sg d s1 s2 =
     (let out = fd_x d + shift_right sg s1 1;
          d' = d\<lparr>fd_x := shift_right sg s2 2\<rparr>
      in (out + fd_x d', d'))"

text \<open>Feeding a stream of sample pairs, collecting the outputs.\<close>

fun fast_downsample_run ::
  "signedness \<Rightarrow> ('w::len) word fast_downsample \<Rightarrow> ('w word \<times> 'w word) list
     \<Rightarrow> 'w word list \<times> 'w word fast_downsample" where
  "fast_downsample_run sg d [] = ([], d)"
| "fast_downsample_run sg d ((s1, s2) # ps) =
     (let (y, d') = fast_downsample_call sg d s1 s2;
          (ys, d'') = fast_downsample_run sg d' ps
      in (y # ys, d''))"

text \<open>
  The range of the sample type, and the invariant of the carried remainder: it is a
  quarter of a sample, so that four times its value is in the range of the type.
\<close>

definition in_range :: "signedness \<Rightarrow> nat \<Rightarrow> int \<Rightarrow> bool" where
  "in_range sg w k =
     (case sg of Signed \<Rightarrow> - (2 ^ (w - 1)) \<le> k \<and> k < 2 ^ (w - 1)
               | Unsigned \<Rightarrow> 0 \<le> k \<and> k < 2 ^ w)"

definition quarter_bounded :: "signedness \<Rightarrow> ('w::len) word fast_downsample \<Rightarrow> bool" where
  "quarter_bounded sg d \<longleftrightarrow> in_range sg LENGTH('w) (4 * value_of sg (fd_x d))"

section \<open>Single-precision floating point\<close>

text \<open>
  The type \<^verbatim>\<open>float\<close> of the filters, as IEEE 754 binary32: the finite values
  \<open>m * 2 ^ e\<close> with \<open>\<bar>m\<bar> < 2 ^ 24\<close> and \<open>- 149 \<le> e \<le> 104\<close> (written below
  with \<open>e = k - 149\<close>), the two infinities and NaN.  The two zeros are one value,
  and so are all NaNs: comparisons and the bounds below do not tell them apart.  An
  operation on finite values rounds the exact result to the nearest value of the
  format, a tie to the one with the even significand, and to an infinity from
  \<open>2 ^ 128 - 2 ^ 103\<close> on.  A comparison with NaN is false.
\<close>

datatype float32 = NaN | PInf | NInf | Fin real

text \<open>The finite values, and those among them whose significand is even.\<close>

definition float32_grid :: "real set" where
  "float32_grid = (\<lambda>(m, k). real_of_int m * 2 ^ k / 2 ^ 149) ` ({- (2 ^ 24 - 1) .. 2 ^ 24 - 1} \<times> {0 .. 253})"

definition float32_even :: "real set" where
  "float32_even = (\<lambda>(m, k). real_of_int m * 2 ^ k / 2 ^ 149) `
     {(m, k) \<in> {- (2 ^ 24 - 1) .. 2 ^ 24 - 1} \<times> {0 .. 253}. even m \<and> (k = 0 \<or> 2 ^ 23 \<le> \<bar>m\<bar>)}"

definition float32_max :: real where
  "float32_max = (2 ^ 24 - 1) * 2 ^ 104"

text \<open>Rounding to nearest, ties to even.\<close>

definition round_down :: "real \<Rightarrow> real" where
  "round_down r = Max {g \<in> float32_grid. g \<le> r}"

definition round_up :: "real \<Rightarrow> real" where
  "round_up r = Min {g \<in> float32_grid. r \<le> g}"

definition fround :: "real \<Rightarrow> float32" where
  "fround r =
     (if float32_max < r then (if r < 2 ^ 128 - 2 ^ 103 then Fin float32_max else PInf)
      else if r < - float32_max then (if - (2 ^ 128 - 2 ^ 103) < r then Fin (- float32_max) else NInf)
      else
        let lo = round_down r; hi = round_up r
        in if r - lo < hi - r then Fin lo
           else if hi - r < r - lo then Fin hi
           else if lo \<in> float32_even then Fin lo else Fin hi)"

text \<open>The operations that the filters use.\<close>

fun float32_add :: "float32 \<Rightarrow> float32 \<Rightarrow> float32" where
  "float32_add NaN y = NaN"
| "float32_add x NaN = NaN"
| "float32_add PInf NInf = NaN"
| "float32_add NInf PInf = NaN"
| "float32_add PInf y = PInf"
| "float32_add x PInf = PInf"
| "float32_add NInf y = NInf"
| "float32_add x NInf = NInf"
| "float32_add (Fin a) (Fin b) = fround (a + b)"

fun float32_neg :: "float32 \<Rightarrow> float32" where
  "float32_neg NaN = NaN"
| "float32_neg PInf = NInf"
| "float32_neg NInf = PInf"
| "float32_neg (Fin a) = Fin (- a)"

fun float32_abs :: "float32 \<Rightarrow> float32" where
  "float32_abs NaN = NaN"
| "float32_abs PInf = PInf"
| "float32_abs NInf = PInf"
| "float32_abs (Fin a) = Fin \<bar>a\<bar>"

fun float32_mul :: "float32 \<Rightarrow> float32 \<Rightarrow> float32" where
  "float32_mul NaN y = NaN"
| "float32_mul x NaN = NaN"
| "float32_mul PInf PInf = PInf"
| "float32_mul PInf NInf = NInf"
| "float32_mul NInf PInf = NInf"
| "float32_mul NInf NInf = PInf"
| "float32_mul PInf (Fin b) = (if b = 0 then NaN else if 0 < b then PInf else NInf)"
| "float32_mul NInf (Fin b) = (if b = 0 then NaN else if 0 < b then NInf else PInf)"
| "float32_mul (Fin a) PInf = (if a = 0 then NaN else if 0 < a then PInf else NInf)"
| "float32_mul (Fin a) NInf = (if a = 0 then NaN else if 0 < a then NInf else PInf)"
| "float32_mul (Fin a) (Fin b) = fround (a * b)"

fun float32_less :: "float32 \<Rightarrow> float32 \<Rightarrow> bool" where
  "float32_less NaN y = False"
| "float32_less x NaN = False"
| "float32_less x NInf = False"
| "float32_less PInf y = False"
| "float32_less NInf y = True"
| "float32_less x PInf = True"
| "float32_less (Fin a) (Fin b) = (a < b)"

fun float32_less_eq :: "float32 \<Rightarrow> float32 \<Rightarrow> bool" where
  "float32_less_eq NaN y = False"
| "float32_less_eq x NaN = False"
| "float32_less_eq NInf y = True"
| "float32_less_eq x PInf = True"
| "float32_less_eq x NInf = False"
| "float32_less_eq PInf y = False"
| "float32_less_eq (Fin a) (Fin b) = (a \<le> b)"

instantiation float32 :: "{zero,one,plus,uminus,minus,times,abs,ord}"
begin

definition zero_float32 :: float32 where
  "zero_float32 = Fin 0"

definition one_float32 :: float32 where
  "one_float32 = Fin 1"

definition plus_float32 :: "float32 \<Rightarrow> float32 \<Rightarrow> float32" where
  "plus_float32 x y = float32_add x y"

definition uminus_float32 :: "float32 \<Rightarrow> float32" where
  "uminus_float32 x = float32_neg x"

definition minus_float32 :: "float32 \<Rightarrow> float32 \<Rightarrow> float32" where
  "minus_float32 x y = float32_add x (float32_neg y)"

definition times_float32 :: "float32 \<Rightarrow> float32 \<Rightarrow> float32" where
  "times_float32 x y = float32_mul x y"

definition abs_float32 :: "float32 \<Rightarrow> float32" where
  "abs_float32 x = float32_abs x"

definition less_float32 :: "float32 \<Rightarrow> float32 \<Rightarrow> bool" where
  "less_float32 x y = float32_less x y"

definition less_eq_float32 :: "float32 \<Rightarrow> float32 \<Rightarrow> bool" where
  "less_eq_float32 x y = float32_less_eq x y"

instance ..

end

text \<open>A value of the format: a finite one is on the grid.\<close>

definition is_float32 :: "float32 \<Rightarrow> bool" where
  "is_float32 x = (case x of Fin r \<Rightarrow> r \<in> float32_grid | _ \<Rightarrow> True)"

section \<open>Dynamic smoother (\<^verbatim>\<open>dynamic_smoother\<close>)\<close>

text \<open>
  The call operator uses the arithmetic of \<^verbatim>\<open>float\<close> only through \<^verbatim>\<open>+\<close>,
  \<^verbatim>\<open>-\<close>, \<^verbatim>\<open>*\<close>, \<^verbatim>\<open>std::abs\<close> and the comparison inside \<^verbatim>\<open>std::min\<close>; it is
  modelled over any type \<open>'f\<close> with these operations, of which nothing is
  assumed.  The constructor and \<^verbatim>\<open>base_frequency\<close> compute with \<^verbatim>\<open>std::tan\<close>
  and \<^verbatim>\<open>pi\<close>; they are modelled over the real numbers: rounding, infinities and
  NaN are not represented, and a division is the division of the reals.
\<close>

record 'f dynamic_smoother =
  sense :: "'f"
  wc :: "'f"
  g0 :: "'f"
  low1 :: "'f"
  low2 :: "'f"

text \<open>\<^verbatim>\<open>std::min(a, b)\<close> returns \<open>b\<close> when \<open>b < a\<close> and \<open>a\<close> otherwise.\<close>

definition std_min :: "'f::ord \<Rightarrow> 'f \<Rightarrow> 'f" where
  "std_min a b = (if b < a then b else a)"

text \<open>
  The constructor \<^verbatim>\<open>dynamic_smoother(base, sensitivity, sps)\<close>; \<open>base\<close> is the
  value of \<^verbatim>\<open>double(base)\<close>, in Hz.  The two-argument constructor passes the
  sensitivity \<open>0.5\<close>.
\<close>

definition dynamic_smoother_new :: "real \<Rightarrow> real \<Rightarrow> 32 word \<Rightarrow> real dynamic_smoother" where
  "dynamic_smoother_new base sensitivity sps =
     (let w = base / real (unat sps);
          gc = tan (pi * w)
      in \<lparr>sense = sensitivity * 4, wc = w, g0 = 2 * gc / (1 + gc), low1 = 0, low2 = 0\<rparr>)"

definition dynamic_smoother_new_default :: "real \<Rightarrow> 32 word \<Rightarrow> real dynamic_smoother" where
  "dynamic_smoother_new_default base sps = dynamic_smoother_new base (1 / 2) sps"

text \<open>The dynamic gain \<^verbatim>\<open>g\<close> that the call operator computes from the state it finds.\<close>

definition dynamic_smoother_gain :: "('f::{plus,minus,times,abs,ord,one}) dynamic_smoother \<Rightarrow> 'f" where
  "dynamic_smoother_gain d =
     (let lowlz = low1 d;
          low2z = low2 d;
          bandz = lowlz - low2z
      in std_min (g0 d + sense d * \<bar>bandz\<bar>) 1)"

definition dynamic_smoother_call ::
  "('f::{plus,minus,times,abs,ord,one}) dynamic_smoother \<Rightarrow> 'f \<Rightarrow> 'f \<times> 'f dynamic_smoother" where
  "dynamic_smoother_call d s =
     (let lowlz = low1 d;
          low2z = low2 d;
          g = dynamic_smoother_gain d;
          d1 = d\<lparr>low1 := lowlz + g * (s - lowlz)\<rparr>;
          d2 = d1\<lparr>low2 := low2z + g * (low1 d1 - low2z)\<rparr>
      in (low2z, d2))"

definition dynamic_smoother_base_frequency ::
  "real dynamic_smoother \<Rightarrow> real \<Rightarrow> 32 word \<Rightarrow> real dynamic_smoother" where
  "dynamic_smoother_base_frequency d base sps =
     (let d1 = d\<lparr>wc := base / real (unat sps)\<rparr>;
          gc = tan (pi * wc d1)
      in d1\<lparr>g0 := 2 * gc / (1 + gc)\<rparr>)"

text \<open>Feeding a stream of samples, collecting the outputs.\<close>

fun dynamic_smoother_run ::
  "('f::{plus,minus,times,abs,ord,one}) dynamic_smoother \<Rightarrow> 'f list
     \<Rightarrow> 'f list \<times> 'f dynamic_smoother" where
  "dynamic_smoother_run d [] = ([], d)"
| "dynamic_smoother_run d (s # ss) =
     (let (y, d') = dynamic_smoother_call d s;
          (ys, d'') = dynamic_smoother_run d' ss
      in (y # ys, d''))"

section \<open>Zero-crossing detector (\<^verbatim>\<open>zero_cross\<close>)\<close>

text \<open>
  The sample type \<open>'f\<close> stands for \<^verbatim>\<open>float\<close>.  The call operator only compares
  samples with \<^verbatim>\<open><\<close> and \<^verbatim>\<open>>\<close> and negates the threshold, so the model asks
  for nothing but these operations (and \<open>0\<close>, \<open>1\<close> for the returned value, the
  conversion of the \<^verbatim>\<open>bool\<close> state to \<^verbatim>\<open>float\<close>).  The type \<open>'n\<close> stands for
  \<^verbatim>\<open>std::size_t\<close>: an unsigned machine word \<^typ>\<open>'w word\<close> whose increment wraps.
\<close>

record ('f, 'n) zero_cross =
  zc_hysteresis :: "'f"
  zc_min_samples :: "'n"
  zc_state :: bool
  zc_count :: "'n"

text \<open>
  Conversion of a \<^verbatim>\<open>double\<close> to \<^verbatim>\<open>std::size_t\<close>: the value is truncated towards
  zero; the behaviour is undefined (\<open>None\<close>) when the truncated value is not in the
  range of the type.
\<close>

definition size_t_of_double :: "real \<Rightarrow> ('w::len) word option" where
  "size_t_of_double r =
     (let t = (if r < 0 then \<lceil>r\<rceil> else \<lfloor>r\<rfloor>)
      in if 0 \<le> t \<and> t < 2 ^ LENGTH('w) then Some (word_of_int t) else None)"

text \<open>
  The constructor \<^verbatim>\<open>zero_cross(hysteresis, min_period, sps)\<close>; \<open>min_period\<close> is
  the value of \<^verbatim>\<open>double(min_period)\<close>, in seconds.  The constructor that
  takes a maximum frequency delegates to this one with the period of that frequency.
\<close>

definition zero_cross_new ::
  "'f \<Rightarrow> real \<Rightarrow> 32 word \<Rightarrow> ('f, ('w::len) word) zero_cross option" where
  "zero_cross_new hysteresis min_period sps =
     (case size_t_of_double (min_period * real (unat sps)) of
        None \<Rightarrow> None
      | Some k \<Rightarrow> Some \<lparr>zc_hysteresis = hysteresis, zc_min_samples = k,
                        zc_state = False, zc_count = 0\<rparr>)"

definition float_of_bool :: "bool \<Rightarrow> 'f::{zero,one}" where
  "float_of_bool b = (if b then 1 else 0)"

definition zero_cross_call ::
  "('f::{ord,uminus,zero,one}, ('w::len) word) zero_cross \<Rightarrow> 'f
     \<Rightarrow> 'f \<times> ('f, 'w word) zero_cross" where
  "zero_cross_call z s =
     (let c = zc_count z;
          z1 = z\<lparr>zc_count := c + 1\<rparr>
      in if c < zc_min_samples z1 then (float_of_bool (zc_state z1), z1)
         else if zc_hysteresis z1 < s \<and> \<not> zc_state z1 then
           (float_of_bool True, z1\<lparr>zc_state := True, zc_count := 0\<rparr>)
         else if s < - zc_hysteresis z1 \<and> zc_state z1 then
           (float_of_bool False, z1\<lparr>zc_state := False, zc_count := 0\<rparr>)
         else (float_of_bool (zc_state z1), z1))"

definition zero_cross_edge :: "('f, ('w::len) word) zero_cross \<Rightarrow> bool" where
  "zero_cross_edge z \<longleftrightarrow> zc_count z = 0"

text \<open>The state after feeding a sequence of samples, one call each.\<close>

fun zero_cross_run ::
  "('f::{ord,uminus,zero,one}, ('w::len) word) zero_cross \<Rightarrow> 'f list
     \<Rightarrow> ('f, 'w word) zero_cross" where
  "zero_cross_run z [] = z"
| "zero_cross_run z (s # ss) = zero_cross_run (snd (zero_cross_call z s)) ss"

section \<open>Peak and onset detectors (\<^verbatim>\<open>peak\<close>, \<^verbatim>\<open>onset\<close>)\<close>

text \<open>
  \<^verbatim>\<open>peak\<close> holds a \<^verbatim>\<open>schmitt_trigger\<close>, a class of \<^verbatim>\<open>q/fx.hpp\<close>, which is
  not among the sources.  The comparator is therefore a parameter: its state is a
  value of an arbitrary type \<open>'c\<close>, and its call operator a function \<open>cmp\<close>
  that takes the state and the two compared values and returns the boolean result
  with the new state.  Nothing is assumed about it.
\<close>

record ('f, 'c) peak =
  pk_droop :: "'f"
  pk_cmp :: "'c"

definition peak_call ::
  "('c \<Rightarrow> 'f \<Rightarrow> 'f \<Rightarrow> bool \<times> 'c) \<Rightarrow> ('f::times, 'c) peak \<Rightarrow> 'f \<Rightarrow> 'f
     \<Rightarrow> bool \<times> ('f, 'c) peak" where
  "peak_call cmp p s env =
     (let (r, c') = cmp (pk_cmp p) s (env * pk_droop p)
      in (r, p\<lparr>pk_cmp := c'\<rparr>))"

record ('f, 'c, 'n) onset =
  on_pk :: "('f, 'c) peak"
  on_min_samples :: "'n"
  on_state :: bool
  on_count :: "'n"
  on_current_peak :: "'f"

definition onset_droop :: "'f::{numeral,inverse}" where
  "onset_droop = 8 / 10"

definition onset_hysteresis :: "'f::{numeral,inverse}" where
  "onset_hysteresis = 5 / 1000"

text \<open>
  The constructor \<^verbatim>\<open>onset(min_period, sps)\<close>.  \<open>mk_cmp\<close> is the constructor of
  the comparator from its hysteresis; \<open>min_period\<close> is the value of
  \<^verbatim>\<open>double(min_period)\<close>, in seconds.
\<close>

definition onset_new ::
  "('f \<Rightarrow> 'c) \<Rightarrow> real \<Rightarrow> 32 word \<Rightarrow> ('f::{numeral,inverse,zero}, 'c, ('w::len) word) onset option" where
  "onset_new mk_cmp min_period sps =
     (case size_t_of_double (min_period * real (unat sps)) of
        None \<Rightarrow> None
      | Some k \<Rightarrow> Some \<lparr>on_pk = \<lparr>pk_droop = onset_droop, pk_cmp = mk_cmp onset_hysteresis\<rparr>,
                        on_min_samples = k, on_state = False, on_count = 0,
                        on_current_peak = 0\<rparr>)"

definition onset_call ::
  "('c \<Rightarrow> 'f \<Rightarrow> 'f \<Rightarrow> bool \<times> 'c) \<Rightarrow> ('f::{ord,times}, 'c, ('w::len) word) onset \<Rightarrow> 'f \<Rightarrow> 'f
     \<Rightarrow> bool \<times> ('f, 'c, 'w word) onset" where
  "onset_call cmp z s env =
     (let c = on_count z;
          z1 = z\<lparr>on_count := c + 1\<rparr>
      in if c < on_min_samples z1 then (on_state z1, z1)
         else
           let (pk, p') = peak_call cmp (on_pk z1) s env;
               z2 = z1\<lparr>on_pk := p'\<rparr>
           in if \<not> on_state z2 \<and> pk then
                (if on_current_peak z2 < s then
                   (True, z2\<lparr>on_current_peak := s, on_state := True, on_count := 0\<rparr>)
                 else (on_state z2, z2))
              else if on_state z2 \<and> \<not> pk then
                (False, z2\<lparr>on_state := False, on_count := 0\<rparr>)
              else (on_state z2, z2))"

definition onset_peak_val :: "('f, 'c, 'n) onset \<Rightarrow> 'f" where
  "onset_peak_val z = on_current_peak z"

definition onset_reset :: "('f::zero, 'c, 'n) onset \<Rightarrow> ('f, 'c, 'n) onset" where
  "onset_reset z = z\<lparr>on_current_peak := 0\<rparr>"

text \<open>The operations of an onset detector, and a sequence of them applied in order.\<close>

datatype 'f onset_op = Call 'f 'f | Reset | Peak_val

fun onset_apply ::
  "('c \<Rightarrow> 'f \<Rightarrow> 'f \<Rightarrow> bool \<times> 'c) \<Rightarrow> ('f::{ord,times,zero}, 'c, ('w::len) word) onset
     \<Rightarrow> 'f onset_op \<Rightarrow> ('f, 'c, 'w word) onset" where
  "onset_apply cmp z (Call s env) = snd (onset_call cmp z s env)"
| "onset_apply cmp z Reset = onset_reset z"
| "onset_apply cmp z Peak_val = z"

fun onset_run ::
  "('c \<Rightarrow> 'f \<Rightarrow> 'f \<Rightarrow> bool \<times> 'c) \<Rightarrow> ('f::{ord,times,zero}, 'c, ('w::len) word) onset
     \<Rightarrow> 'f onset_op list \<Rightarrow> ('f, 'c, 'w word) onset" where
  "onset_run cmp z [] = z"
| "onset_run cmp z (op # ops) = onset_run cmp (onset_apply cmp z op) ops"

text \<open>
  Modelled from the spec: the comparator of \<^verbatim>\<open>q/fx.hpp\<close>, which is not among the
  sources; the spec describes it as a hysteretic boolean comparator that retains
  its last state.  It rises when the first value exceeds the second by more than
  the hysteresis and falls when it is below the second by more than the hysteresis.
  It serves as a concrete comparator where the theorems below are instantiated.
\<close>

record 'f schmitt_trigger =
  st_hysteresis :: "'f"
  st_y :: bool

definition schmitt_trigger_new :: "'f \<Rightarrow> 'f schmitt_trigger" where
  "schmitt_trigger_new hysteresis = \<lparr>st_hysteresis = hysteresis, st_y = False\<rparr>"

definition schmitt_trigger_call ::
  "('f::{ord,plus,minus}) schmitt_trigger \<Rightarrow> 'f \<Rightarrow> 'f \<Rightarrow> bool \<times> 'f schmitt_trigger" where
  "schmitt_trigger_call t pos neg =
     (if \<not> st_y t \<and> neg + st_hysteresis t < pos then (True, t\<lparr>st_y := True\<rparr>)
      else if st_y t \<and> pos < neg - st_hysteresis t then (False, t\<lparr>st_y := False\<rparr>)
      else (st_y t, t))"

chapter \<open>Properties\<close>

section \<open>Properties of the fast downsampler\<close>

subsection \<open>Values of shifts and sums\<close>

lemma value_of_in_range: "in_range sg LENGTH('w) (value_of sg (w :: 'w::len word))"
  using sint_ge [of w] sint_lt [of w]
  by (cases sg) (simp_all add: in_range_def value_of_def)

lemma value_of_shift_right:
  "value_of sg (shift_right sg (w :: 'w::len word) n) = value_of sg w div 2 ^ n"
proof (cases sg)
  case Signed
  then show ?thesis
    by (simp add: value_of_def shift_right_def sint_signed_drop_bit_eq drop_bit_eq_div)
next
  case Unsigned
  have "unat (drop_bit n w) = unat w div 2 ^ n"
    unfolding unat_drop_bit_eq by (simp add: drop_bit_eq_div)
  then have "int (unat (drop_bit n w)) = int (unat w) div 2 ^ n"
    by (simp only: zdiv_int of_nat_power of_nat_numeral)
  then have "uint (drop_bit n w) = uint w div 2 ^ n"
    by (simp only: uint_nat)
  with Unsigned show ?thesis
    by (simp add: value_of_def shift_right_def)
qed

lemma value_of_add:
  fixes a b :: "('w::len) word"
  assumes "in_range sg LENGTH('w) (value_of sg a + value_of sg b)"
  shows "value_of sg (a + b) = value_of sg a + value_of sg b"
proof (cases sg)
  case Signed
  with assms have "- (2 ^ (LENGTH('w) - 1)) \<le> sint a + sint b" "sint a + sint b < 2 ^ (LENGTH('w) - 1)"
    by (simp_all add: in_range_def value_of_def)
  then have "signed_take_bit (LENGTH('w) - 1) (sint a + sint b) = sint a + sint b"
    by (rule signed_take_bit_int_eq_self)
  with Signed show ?thesis
    by (simp add: value_of_def sint_word_ariths)
next
  case Unsigned
  with assms have "uint a + uint b < 2 ^ LENGTH('w)"
    by (simp add: in_range_def value_of_def)
  then have "uint (a + b) = uint a + uint b"
    by (simp add: uint_add_lem)
  with Unsigned show ?thesis
    by (simp add: value_of_def)
qed

lemma value_of_eqI: "value_of sg a = value_of sg b \<Longrightarrow> a = b"
  by (cases sg) (auto simp: value_of_def intro: signed_word_eqI word_uint_eqI)

subsection \<open>The carried remainder is a quarter of a sample\<close>

lemma fd_x_call: "fd_x (snd (fast_downsample_call sg d s1 s2)) = shift_right sg s2 2"
  by (simp add: fast_downsample_call_def Let_def)

lemma fst_call:
  "fst (fast_downsample_call sg d s1 s2) = (fd_x d + shift_right sg s1 1) + shift_right sg s2 2"
  by (simp add: fast_downsample_call_def Let_def)

lemma signed_half_bounds:
  fixes V Q :: int
  assumes "- (4 * Q) \<le> V" "V < 4 * Q"
  shows "- (2 * Q) \<le> V div 2" and "V div 2 < 2 * Q"
  using assms by presburger+

lemma signed_quarter_bounds:
  fixes V Q :: int
  assumes "- (4 * Q) \<le> V" "V < 4 * Q"
  shows "- Q \<le> V div 4" and "V div 4 < Q"
  using assms by presburger+

lemma signed_sum_bounds:
  fixes X V1 V2 Q :: int
  assumes "- (4 * Q) \<le> V1" "V1 < 4 * Q" "- (4 * Q) \<le> V2" "V2 < 4 * Q"
    and "- (4 * Q) \<le> 4 * X" "4 * X < 4 * Q"
  shows "- (4 * Q) \<le> X + V1 div 2 \<and> X + V1 div 2 < 4 * Q"
    and "- (4 * Q) \<le> X + V1 div 2 + V2 div 4 \<and> X + V1 div 2 + V2 div 4 < 4 * Q"
proof -
  note h = signed_half_bounds [OF assms(1,2)]
  note q = signed_quarter_bounds [OF assms(3,4)]
  have x: "- Q \<le> X" "X < Q"
    using assms(5,6) by linarith+
  show "- (4 * Q) \<le> X + V1 div 2 \<and> X + V1 div 2 < 4 * Q"
    using h x by linarith
  show "- (4 * Q) \<le> X + V1 div 2 + V2 div 4 \<and> X + V1 div 2 + V2 div 4 < 4 * Q"
    using h q x by linarith
qed

lemma unsigned_sum_bounds:
  fixes X V1 V2 N :: int
  assumes "0 \<le> V1" "V1 < N" "0 \<le> V2" "V2 < N" "0 \<le> 4 * X" "4 * X < N"
  shows "0 \<le> X + V1 div 2 \<and> X + V1 div 2 < N"
    and "0 \<le> X + V1 div 2 + V2 div 4 \<and> X + V1 div 2 + V2 div 4 < N"
proof -
  have h: "0 \<le> V1 div 2" "2 * (V1 div 2) \<le> V1"
    using assms(1) by simp_all
  have q: "0 \<le> V2 div 4" "4 * (V2 div 4) \<le> V2"
    using assms(3) by simp_all
  show "0 \<le> X + V1 div 2 \<and> X + V1 div 2 < N"
    using h assms by linarith
  show "0 \<le> X + V1 div 2 + V2 div 4 \<and> X + V1 div 2 + V2 div 4 < N"
    using h q assms by linarith
qed

lemma unsigned_quarter_bounds:
  fixes V N :: int
  assumes "0 \<le> V" "V < N"
  shows "0 \<le> 4 * (V div 4) \<and> 4 * (V div 4) < N"
proof -
  have "0 \<le> V div 4" "4 * (V div 4) \<le> V"
    using assms(1) by simp_all
  with assms show ?thesis by linarith
qed

lemma signed_half_range:
  assumes "3 \<le> w"
  shows "(2 :: int) ^ (w - 1) = 4 * 2 ^ (w - 3)"
proof -
  from assms have "w - 1 = Suc (Suc (w - 3))" by simp
  then show ?thesis by simp
qed

lemma quarter_bounded_init:
  "quarter_bounded sg (fast_downsample_init :: ('w::len) word fast_downsample)"
  by (cases sg) (simp_all add: quarter_bounded_def fast_downsample_init_def in_range_def value_of_def)

lemma quarter_bounded_call:
  fixes d :: "('w::len) word fast_downsample"
  assumes "sg = Signed \<longrightarrow> 3 \<le> LENGTH('w)"
  shows "quarter_bounded sg (snd (fast_downsample_call sg d s1 s2))"
proof (cases sg)
  case Signed
  then have P: "(2 :: int) ^ (LENGTH('w) - 1) = 4 * 2 ^ (LENGTH('w) - 3)"
    using assms by (intro signed_half_range) simp
  have "- (4 * 2 ^ (LENGTH('w) - 3)) \<le> sint s2" "sint s2 < 4 * 2 ^ (LENGTH('w) - 3)"
    using sint_ge [of s2] sint_lt [of s2] by (simp_all only: P)
  then have "- (2 ^ (LENGTH('w) - 3)) \<le> sint s2 div 4" "sint s2 div 4 < 2 ^ (LENGTH('w) - 3)"
    by (rule signed_quarter_bounds)+
  then have "- (4 * 2 ^ (LENGTH('w) - 3)) \<le> 4 * (sint s2 div 4)
           \<and> 4 * (sint s2 div 4) < 4 * 2 ^ (LENGTH('w) - 3)"
    by linarith
  then have "in_range Signed LENGTH('w) (4 * (sint s2 div 4))"
    by (simp only: in_range_def signedness.case P) 
  moreover have "value_of Signed (shift_right Signed s2 2) = sint s2 div 4"
    using value_of_shift_right [of Signed s2 2] by (simp add: value_of_def)
  ultimately show ?thesis
    by (simp add: quarter_bounded_def fd_x_call Signed)
next
  case Unsigned
  have "0 \<le> uint s2" "uint s2 < 2 ^ LENGTH('w)"
    by simp_all
  then have "0 \<le> 4 * (uint s2 div 4) \<and> 4 * (uint s2 div 4) < 2 ^ LENGTH('w)"
    by (rule unsigned_quarter_bounds)
  then have "in_range Unsigned LENGTH('w) (4 * (uint s2 div 4))"
    by (simp only: in_range_def signedness.case)
  moreover have "value_of Unsigned (shift_right Unsigned s2 2) = uint s2 div 4"
    using value_of_shift_right [of Unsigned s2 2] by (simp add: value_of_def)
  ultimately show ?thesis
    by (simp add: quarter_bounded_def fd_x_call Unsigned)
qed

lemma quarter_bounded_run:
  fixes d :: "('w::len) word fast_downsample"
  assumes "sg = Signed \<longrightarrow> 3 \<le> LENGTH('w)"
  shows "quarter_bounded sg d \<Longrightarrow> quarter_bounded sg (snd (fast_downsample_run sg d ps))"
proof (induction ps arbitrary: d)
  case Nil
  then show ?case by simp
next
  case (Cons p ps)
  obtain s1 s2 where p: "p = (s1, s2)" by (cases p)
  have "quarter_bounded sg (snd (fast_downsample_run sg (snd (fast_downsample_call sg d s1 s2)) ps))"
    by (rule Cons.IH) (rule quarter_bounded_call [OF assms])
  then show ?case
    by (auto simp: p split: prod.splits)
qed

lemma sums_in_range:
  fixes d :: "('w::len) word fast_downsample" and s1 s2 :: "'w word"
  assumes w: "sg = Signed \<longrightarrow> 3 \<le> LENGTH('w)" and qb: "quarter_bounded sg d"
  shows "in_range sg LENGTH('w) (value_of sg (fd_x d) + value_of sg s1 div 2)"
    and "in_range sg LENGTH('w) (value_of sg (fd_x d) + value_of sg s1 div 2 + value_of sg s2 div 4)"
proof -
  have "in_range sg LENGTH('w) (value_of sg (fd_x d) + value_of sg s1 div 2)
      \<and> in_range sg LENGTH('w) (value_of sg (fd_x d) + value_of sg s1 div 2 + value_of sg s2 div 4)"
  proof (cases sg)
    case Signed
    then have P: "(2 :: int) ^ (LENGTH('w) - 1) = 4 * 2 ^ (LENGTH('w) - 3)"
      using w by (intro signed_half_range) simp
    have b: "- (4 * 2 ^ (LENGTH('w) - 3)) \<le> sint s1" "sint s1 < 4 * 2 ^ (LENGTH('w) - 3)"
        "- (4 * 2 ^ (LENGTH('w) - 3)) \<le> sint s2" "sint s2 < 4 * 2 ^ (LENGTH('w) - 3)"
      using sint_ge [of s1] sint_lt [of s1] sint_ge [of s2] sint_lt [of s2] by (simp_all only: P)
    have "in_range Signed LENGTH('w) (4 * sint (fd_x d))"
      using qb Signed by (simp add: quarter_bounded_def value_of_def)
    then have x: "- (4 * 2 ^ (LENGTH('w) - 3)) \<le> 4 * sint (fd_x d)"
        "4 * sint (fd_x d) < 4 * 2 ^ (LENGTH('w) - 3)"
      unfolding in_range_def signedness.case P by simp_all
    have "in_range Signed LENGTH('w) (sint (fd_x d) + sint s1 div 2)
        \<and> in_range Signed LENGTH('w) (sint (fd_x d) + sint s1 div 2 + sint s2 div 4)"
      unfolding in_range_def signedness.case P
      using signed_sum_bounds [OF b x] by simp
    with Signed show ?thesis
      by (simp add: value_of_def)
  next
    case Unsigned
    have b: "0 \<le> uint s1" "uint s1 < 2 ^ LENGTH('w)" "0 \<le> uint s2" "uint s2 < 2 ^ LENGTH('w)"
      by simp_all
    have x: "0 \<le> 4 * uint (fd_x d)" "4 * uint (fd_x d) < 2 ^ LENGTH('w)"
      using qb Unsigned by (simp_all add: quarter_bounded_def in_range_def value_of_def)
    from unsigned_sum_bounds [OF b x] Unsigned show ?thesis
      by (simp add: in_range_def value_of_def)
  qed
  then show "in_range sg LENGTH('w) (value_of sg (fd_x d) + value_of sg s1 div 2)"
    and "in_range sg LENGTH('w) (value_of sg (fd_x d) + value_of sg s1 div 2 + value_of sg s2 div 4)"
    by simp_all
qed

lemma call_exact:
  fixes d :: "('w::len) word fast_downsample" and s1 s2 :: "'w word"
  assumes w: "sg = Signed \<longrightarrow> 3 \<le> LENGTH('w)" and qb: "quarter_bounded sg d"
  shows "value_of sg (fd_x d + shift_right sg s1 1) = value_of sg (fd_x d) + value_of sg s1 div 2"
    and "value_of sg (fst (fast_downsample_call sg d s1 s2))
           = value_of sg (fd_x d) + value_of sg s1 div 2 + value_of sg s2 div 4"
proof -
  have h1: "value_of sg (shift_right sg s1 1) = value_of sg s1 div 2"
    using value_of_shift_right [of sg s1 1] by simp
  have h2: "value_of sg (shift_right sg s2 2) = value_of sg s2 div 4"
    using value_of_shift_right [of sg s2 2] by simp
  have "in_range sg LENGTH('w) (value_of sg (fd_x d) + value_of sg (shift_right sg s1 1))"
    using sums_in_range(1) [OF w qb, where ?s1.0 = s1] by (simp only: h1)
  then have a: "value_of sg (fd_x d + shift_right sg s1 1)
      = value_of sg (fd_x d) + value_of sg (shift_right sg s1 1)"
    by (rule value_of_add)
  then show first: "value_of sg (fd_x d + shift_right sg s1 1) = value_of sg (fd_x d) + value_of sg s1 div 2"
    by (simp only: h1)
  have "in_range sg LENGTH('w)
      (value_of sg (fd_x d + shift_right sg s1 1) + value_of sg (shift_right sg s2 2))"
    using sums_in_range(2) [OF w qb, where ?s1.0 = s1 and ?s2.0 = s2] by (simp only: first h2)
  then have "value_of sg ((fd_x d + shift_right sg s1 1) + shift_right sg s2 2)
      = value_of sg (fd_x d + shift_right sg s1 1) + value_of sg (shift_right sg s2 2)"
    by (rule value_of_add)
  then show "value_of sg (fst (fast_downsample_call sg d s1 s2))
           = value_of sg (fd_x d) + value_of sg s1 div 2 + value_of sg s2 div 4"
    by (simp only: fst_call first h2)
qed

lemma fd_x_run_const:
  "0 < n \<Longrightarrow> fd_x (snd (fast_downsample_run sg d (replicate n (v, v)))) = shift_right sg v 2"
proof (induction n arbitrary: d)
  case 0
  then show ?case by simp
next
  case (Suc n)
  show ?case
  proof (cases "n = 0")
    case True
    then show ?thesis
      by (simp add: fd_x_call split: prod.splits) (metis fd_x_call snd_conv)
  next
    case False
    then have "fd_x (snd (fast_downsample_run sg (snd (fast_downsample_call sg d v v)) (replicate n (v, v))))
        = shift_right sg v 2"
      using Suc.IH by simp
    then show ?thesis
      by (auto split: prod.splits)
  qed
qed

subsection \<open>The output of a call\<close>

text \<open>
  Claim C7.  On every call of an instance that started fresh and has been fed any
  stream \<open>ps\<close> of sample pairs, the returned output is the carried remainder of the
  previous call plus half of \<open>s1\<close> plus a quarter of \<open>s2\<close>, and the new carried
  remainder is a quarter of \<open>s2\<close>; the initial remainder is zero.  Half and
  quarter are the right shifts of the source by one and by two, which divide by two
  and by four rounding towards minus infinity.  The equations are between the
  numbers that the words stand for, signed or unsigned: neither the intermediate sum
  nor the returned one leaves the range of the sample type.  A signed sample type has
  at least three bits.
\<close>

theorem fast_downsample_call_spec:
  fixes s1 s2 :: "('w::len) word"
  assumes "sg = Signed \<longrightarrow> 3 \<le> LENGTH('w)"
  shows "value_of sg (fst (fast_downsample_call sg (snd (fast_downsample_run sg fast_downsample_init ps)) s1 s2))
           = value_of sg (fd_x (snd (fast_downsample_run sg fast_downsample_init ps)))
             + value_of sg s1 div 2 + value_of sg s2 div 4
       \<and> value_of sg (fd_x (snd (fast_downsample_run sg fast_downsample_init ps)) + shift_right sg s1 1)
           = value_of sg (fd_x (snd (fast_downsample_run sg fast_downsample_init ps)))
             + value_of sg s1 div 2
       \<and> value_of sg (fd_x (snd (fast_downsample_call sg d s1 s2))) = value_of sg s2 div 4
       \<and> value_of sg (fd_x (fast_downsample_init :: 'w word fast_downsample)) = 0"
proof -
  have qb: "quarter_bounded sg (snd (fast_downsample_run sg (fast_downsample_init :: 'w word fast_downsample) ps))"
    by (rule quarter_bounded_run [OF assms]) (rule quarter_bounded_init)
  have "value_of sg (shift_right sg s2 2) = value_of sg s2 div 4"
    using value_of_shift_right [of sg s2 2] by simp
  moreover have "value_of sg (0 :: 'w word) = 0"
    by (cases sg) (simp_all add: value_of_def)
  ultimately show ?thesis
    using call_exact(1) [OF assms qb, where ?s1.0 = s1]
      call_exact(2) [OF assms qb, where ?s1.0 = s1 and ?s2.0 = s2]
    by (simp add: fd_x_call fast_downsample_init_def)
qed

theorem fast_downsample_call_spec_witness:
  "3 \<le> LENGTH(16)
   \<and> sint (fst (fast_downsample_call Signed fast_downsample_init (- 3 :: 16 word) (- 3))) = - 3
   \<and> sint (fd_x (snd (fast_downsample_call Signed fast_downsample_init (- 3 :: 16 word) (- 3)))) = - 1
   \<and> sint (fst (fast_downsample_call Signed
        (snd (fast_downsample_run Signed fast_downsample_init [(- 3 :: 16 word, - 3)])) (- 3) (- 3))) = - 4
   \<and> uint (fst (fast_downsample_call Unsigned
        (snd (fast_downsample_run Unsigned fast_downsample_init [(7 :: 16 word, 6)])) 5 9)) = 5"
proof -
  have w: "Signed = Signed \<longrightarrow> 3 \<le> LENGTH(16)" by simp
  have u: "Unsigned = Signed \<longrightarrow> 3 \<le> LENGTH(16)" by simp
  have m3: "sint (- 3 :: 16 word) = - 3" by simp
  have v5: "uint (5 :: 16 word) = 5" and v9: "uint (9 :: 16 word) = 9" and v6: "uint (6 :: 16 word) = 6"
    by simp_all
  note a = fast_downsample_call_spec [OF w, where ps = "[]" and ?s1.0 = "- 3" and ?s2.0 = "- 3"
      and d = fast_downsample_init]
  note b = fast_downsample_call_spec [OF w, where ps = "[(- 3, - 3)]" and ?s1.0 = "- 3" and ?s2.0 = "- 3"]
  note c = fast_downsample_call_spec [OF u, where ps = "[(7, 6)]" and ?s1.0 = 5 and ?s2.0 = 9]
  have x1: "snd (fast_downsample_run Signed fast_downsample_init [(- 3 :: 16 word, - 3)])
      = snd (fast_downsample_call Signed fast_downsample_init (- 3) (- 3))"
    by (simp split: prod.splits)
  have x2: "snd (fast_downsample_run Unsigned fast_downsample_init [(7 :: 16 word, 6)])
      = snd (fast_downsample_call Unsigned fast_downsample_init 7 6)"
    by (simp split: prod.splits)
  have xa: "value_of Signed (fd_x (snd (fast_downsample_call Signed fast_downsample_init (- 3 :: 16 word) (- 3)))) = - 1"
    using a by (simp add: value_of_def m3)
  have xc: "value_of Unsigned (fd_x (snd (fast_downsample_call Unsigned fast_downsample_init (7 :: 16 word) 6))) = 1"
    using fast_downsample_call_spec [OF u, where ps = "[]" and ?s1.0 = 7 and ?s2.0 = 6
        and d = fast_downsample_init]
    by (simp add: value_of_def v6)
  have r1: "sint (fst (fast_downsample_call Signed fast_downsample_init (- 3 :: 16 word) (- 3))) = - 3"
    using a by (simp add: value_of_def m3)
  have r2: "sint (fst (fast_downsample_call Signed
        (snd (fast_downsample_run Signed fast_downsample_init [(- 3 :: 16 word, - 3)])) (- 3) (- 3))) = - 4"
    using b xa unfolding x1 by (simp add: value_of_def m3)
  have r3: "uint (fst (fast_downsample_call Unsigned
        (snd (fast_downsample_run Unsigned fast_downsample_init [(7 :: 16 word, 6)])) 5 9)) = 5"
    using c xc unfolding x2 by (simp add: value_of_def v5 v9)
  from r1 r2 r3 xa show ?thesis
    by (simp add: value_of_def)
qed

text \<open>The first call of a fresh 16-bit signed instance on the pair \<open>(-3, -3)\<close>, evaluated.\<close>

lemma fast_downsample_call_signed_example:
  "fast_downsample_call Signed fast_downsample_init (- 3 :: 16 word) (- 3) = (- 3, \<lparr>fd_x = - 1\<rparr>)"
  by code_simp

subsection \<open>Constant input\<close>

text \<open>
  Claim C3 says that a constant input stream of value \<open>v\<close> yields, in steady state,
  the output \<open>v\<close>.  With 16-bit unsigned samples and \<open>v = 3\<close> every call returns
  \<open>1\<close> and leaves the instance in its initial state, so the output stays \<open>1\<close>
  forever: the shifts discard the low bits of each term before they are added.
\<close>

theorem fast_downsample_dc_counterexample:
  "fast_downsample_run Unsigned (fast_downsample_init :: 16 word fast_downsample)
       [(3, 3), (3, 3), (3, 3), (3, 3)]
     = ([1, 1, 1, 1], fast_downsample_init)
   \<and> fast_downsample_call Unsigned (fast_downsample_init :: 16 word fast_downsample) 3 3
     = (1, fast_downsample_init)"
  by (simp add: fast_downsample_call_def fast_downsample_init_def shift_right_def)

text \<open>
  Claim C3, amended.  Fed the constant \<open>v\<close>, every call after the first returns
  \<open>2 * (v div 4) + v div 2\<close>, that is \<open>v\<close> with the truncation of the three
  shifts taken off: the output never exceeds \<open>v\<close>, falls short of it by at most
  \<open>2\<close>, and equals \<open>v\<close> when \<open>v\<close> is a multiple of four.  This holds for
  signed and for unsigned sample types.
\<close>

theorem fast_downsample_dc_steady:
  fixes v :: "('w::len) word"
  assumes "sg = Signed \<longrightarrow> 3 \<le> LENGTH('w)" and "0 < n"
  shows "value_of sg (fst (fast_downsample_call sg
             (snd (fast_downsample_run sg fast_downsample_init (replicate n (v, v)))) v v))
           = 2 * (value_of sg v div 4) + value_of sg v div 2
       \<and> value_of sg (fst (fast_downsample_call sg
             (snd (fast_downsample_run sg fast_downsample_init (replicate n (v, v)))) v v))
           \<le> value_of sg v
       \<and> value_of sg v - 2
           \<le> value_of sg (fst (fast_downsample_call sg
                 (snd (fast_downsample_run sg fast_downsample_init (replicate n (v, v)))) v v))
       \<and> (4 dvd value_of sg v \<longrightarrow>
           fst (fast_downsample_call sg
             (snd (fast_downsample_run sg fast_downsample_init (replicate n (v, v)))) v v) = v)"
proof -
  let ?d = "snd (fast_downsample_run sg (fast_downsample_init :: 'w word fast_downsample) (replicate n (v, v)))"
  have qb: "quarter_bounded sg ?d"
    by (rule quarter_bounded_run [OF assms(1)]) (rule quarter_bounded_init)
  have "fd_x ?d = shift_right sg v 2"
    using assms(2) by (rule fd_x_run_const)
  then have x: "value_of sg (fd_x ?d) = value_of sg v div 4"
    using value_of_shift_right [of sg v 2] by simp
  have out: "value_of sg (fst (fast_downsample_call sg ?d v v))
      = 2 * (value_of sg v div 4) + value_of sg v div 2"
    using call_exact(2) [OF assms(1) qb, where ?s1.0 = v and ?s2.0 = v] by (simp add: x)
  have le: "2 * (value_of sg v div 4) + value_of sg v div 2 \<le> value_of sg v"
    by presburger
  have ge: "value_of sg v - 2 \<le> 2 * (value_of sg v div 4) + value_of sg v div 2"
    by presburger
  have eq: "fst (fast_downsample_call sg ?d v v) = v" if "4 dvd value_of sg v"
  proof -
    from that have "2 * (value_of sg v div 4) + value_of sg v div 2 = value_of sg v"
      by presburger
    with out have "value_of sg (fst (fast_downsample_call sg ?d v v)) = value_of sg v"
      by simp
    then show ?thesis
      by (rule value_of_eqI)
  qed
  from out le ge eq show ?thesis
    by simp
qed

theorem fast_downsample_dc_steady_witness:
  "3 \<le> LENGTH(16) \<and> (0::nat) < 2
   \<and> sint (fst (fast_downsample_call Signed
        (snd (fast_downsample_run Signed fast_downsample_init (replicate 2 (- 3 :: 16 word, - 3)))) (- 3) (- 3))) = - 4
   \<and> uint (fst (fast_downsample_call Unsigned
        (snd (fast_downsample_run Unsigned fast_downsample_init (replicate 2 (10 :: 16 word, 10)))) 10 10)) = 9
   \<and> 4 dvd sint (- 8 :: 16 word)
   \<and> fst (fast_downsample_call Signed
        (snd (fast_downsample_run Signed fast_downsample_init (replicate 2 (- 8 :: 16 word, - 8)))) (- 8) (- 8)) = - 8"
proof -
  have w: "Signed = Signed \<longrightarrow> 3 \<le> LENGTH(16)" by simp
  have u: "Unsigned = Signed \<longrightarrow> 3 \<le> LENGTH(16)" by simp
  have h: "(0::nat) < 2" by simp
  have m3: "sint (- 3 :: 16 word) = - 3" and m8: "sint (- 8 :: 16 word) = - 8"
    and v10: "uint (10 :: 16 word) = 10"
    by simp_all
  have d8: "4 dvd value_of Signed (- 8 :: 16 word)"
    by (simp add: value_of_def m8)
  from fast_downsample_dc_steady [OF w h, where v = "- 3 :: 16 word"]
       fast_downsample_dc_steady [OF u h, where v = "10 :: 16 word"]
       fast_downsample_dc_steady [OF w h, where v = "- 8 :: 16 word"] d8
  show ?thesis
    by (simp add: value_of_def m3 m8 v10)
qed

section \<open>Properties of single-precision arithmetic\<close>

subsection \<open>Rounding\<close>

lemma finite_grid: "finite float32_grid"
  by (simp add: float32_grid_def)

lemma zero_in_grid: "0 \<in> float32_grid"
proof -
  have "(0, 0) \<in> {- (2 ^ 24 - 1) .. 2 ^ 24 - 1 :: int} \<times> {0 .. 253 :: nat}" by simp
  then have "(\<lambda>(m, k). real_of_int m * 2 ^ k / 2 ^ 149) (0, 0) \<in> float32_grid"
    unfolding float32_grid_def by (rule imageI)
  then show ?thesis by simp
qed

lemma max_in_grid: "float32_max \<in> float32_grid"
proof -
  have "(2 ^ 24 - 1, 253) \<in> {- (2 ^ 24 - 1) .. 2 ^ 24 - 1 :: int} \<times> {0 .. 253 :: nat}" by simp
  then have "(\<lambda>(m, k). real_of_int m * 2 ^ k / 2 ^ 149) (2 ^ 24 - 1, 253) \<in> float32_grid"
    unfolding float32_grid_def by (rule imageI)
  moreover have "(2 :: real) ^ 253 / 2 ^ 149 = 2 ^ 104"
    by (simp add: power_diff [symmetric])
  ultimately show ?thesis
    by (simp add: float32_max_def)
qed

lemma grid_bounds:
  assumes "g \<in> float32_grid"
  shows "- float32_max \<le> g" and "g \<le> float32_max"
proof -
  from assms obtain m :: int and k :: nat
    where m: "- (2 ^ 24 - 1) \<le> m" "m \<le> 2 ^ 24 - 1" and k: "k \<le> 253"
      and g: "g = real_of_int m * 2 ^ k / 2 ^ 149"
    by (auto simp: float32_grid_def)
  have p: "(2 :: real) ^ k \<le> 2 ^ 253"
    using k by (intro power_increasing) simp_all
  have a: "\<bar>real_of_int m\<bar> \<le> 2 ^ 24 - 1"
    using m by (simp add: abs_le_iff)
  have "\<bar>real_of_int m * 2 ^ k\<bar> = \<bar>real_of_int m\<bar> * 2 ^ k"
    by (simp add: abs_mult)
  also have "\<dots> \<le> (2 ^ 24 - 1) * 2 ^ 253"
    using a p by (intro mult_mono) simp_all
  finally have "\<bar>real_of_int m * 2 ^ k\<bar> / 2 ^ 149 \<le> (2 ^ 24 - 1) * 2 ^ 253 / 2 ^ 149"
    by (simp add: divide_right_mono)
  moreover have "((2 :: real) ^ 24 - 1) * 2 ^ 253 / 2 ^ 149 = float32_max"
    by (simp add: float32_max_def)
  moreover have "\<bar>g\<bar> = \<bar>real_of_int m * 2 ^ k\<bar> / 2 ^ 149"
    by (simp add: g)
  ultimately have "\<bar>g\<bar> \<le> float32_max"
    by simp
  then show "- float32_max \<le> g" and "g \<le> float32_max"
    by (simp_all add: abs_le_iff)
qed

lemma round_down_ge:
  assumes "g \<in> float32_grid" and "g \<le> r"
  shows "g \<le> round_down r"
proof -
  have "finite {g \<in> float32_grid. g \<le> r}"
    using finite_grid by simp
  moreover have "g \<in> {g \<in> float32_grid. g \<le> r}"
    using assms by simp
  ultimately show ?thesis
    unfolding round_down_def by (rule Max_ge)
qed

lemma round_up_ge:
  assumes "r \<le> float32_max"
  shows "r \<le> round_up r"
proof -
  have "finite {g \<in> float32_grid. r \<le> g}"
    using finite_grid by simp
  moreover have "{g \<in> float32_grid. r \<le> g} \<noteq> {}"
    using assms max_in_grid by auto
  ultimately have "round_up r \<in> {g \<in> float32_grid. r \<le> g}"
    unfolding round_up_def by (rule Min_in)
  then show ?thesis by simp
qed

text \<open>Rounding never goes below a representable value that the exact result reaches.\<close>

lemma fround_ge:
  assumes "g \<in> float32_grid" and "g \<le> r"
  shows "Fin g \<le> fround r"
proof -
  note gb = grid_bounds [OF assms(1)]
  consider "float32_max < r" | "r < - float32_max" | "- float32_max \<le> r" "r \<le> float32_max"
    by linarith
  then show ?thesis
  proof cases
    case 1
    then show ?thesis
      using gb by (simp add: fround_def less_eq_float32_def)
  next
    case 2
    with assms(2) gb(1) show ?thesis by linarith
  next
    case 3
    have lo: "g \<le> round_down r"
      using assms by (rule round_down_ge)
    have hi: "g \<le> round_up r"
      using round_up_ge [OF 3(2)] assms(2) by linarith
    from 3 lo hi show ?thesis
      by (simp add: fround_def less_eq_float32_def Let_def)
  qed
qed

lemma fround_nonneg: "0 \<le> r \<Longrightarrow> Fin 0 \<le> fround r"
  using zero_in_grid by (rule fround_ge)

subsection \<open>Order and arithmetic\<close>

lemma float32_le_refl: "x \<noteq> NaN \<Longrightarrow> x \<le> (x :: float32)"
  by (cases x) (simp_all add: less_eq_float32_def)

lemma float32_total: "x \<noteq> NaN \<Longrightarrow> y \<noteq> NaN \<Longrightarrow> \<not> x < y \<Longrightarrow> y \<le> (x :: float32)"
  by (cases x; cases y) (simp_all add: less_eq_float32_def less_float32_def)

lemma float32_less_le_trans: "x < y \<Longrightarrow> y \<le> z \<Longrightarrow> x < (z :: float32)"
  by (cases x; cases y; cases z) (simp_all add: less_eq_float32_def less_float32_def)

lemma float32_less_imp_le: "x < y \<Longrightarrow> x \<le> (y :: float32)"
  by (cases x; cases y) (simp_all add: less_eq_float32_def less_float32_def)

lemma float32_le_not_NaN: "x \<le> (y :: float32) \<Longrightarrow> x \<noteq> NaN \<and> y \<noteq> NaN"
  by (cases x; cases y) (simp_all add: less_eq_float32_def)

lemma float32_less_not_NaN: "x < (y :: float32) \<Longrightarrow> x \<noteq> NaN \<and> y \<noteq> NaN"
  by (cases x; cases y) (simp_all add: less_float32_def)

lemma float32_abs_nonneg: "x \<noteq> NaN \<Longrightarrow> 0 \<le> \<bar>x :: float32\<bar>"
  by (cases x) (simp_all add: less_eq_float32_def abs_float32_def zero_float32_def)

lemma float32_abs_NaN: "\<bar>x :: float32\<bar> = NaN \<longleftrightarrow> x = NaN"
  by (cases x) (simp_all add: abs_float32_def)

lemma float32_mul_NaN_left: "NaN * (y :: float32) = NaN"
  by (simp add: times_float32_def)

lemma float32_mul_NaN_right: "(x :: float32) * NaN = NaN"
  by (cases x) (simp_all add: times_float32_def)

lemma float32_add_NaN_right: "(x :: float32) + NaN = NaN"
  by (cases x) (simp_all add: plus_float32_def)

text \<open>The product of two values that are not negative is not negative, unless it is NaN.\<close>

lemma float32_mul_nonneg:
  fixes x y :: float32
  assumes "0 \<le> x" and "0 \<le> y" and "x * y \<noteq> NaN"
  shows "0 \<le> x * y"
proof (cases x; cases y)
  fix a b
  assume x: "x = Fin a" and y: "y = Fin b"
  with assms(1,2) have "0 \<le> a * b"
    by (simp add: less_eq_float32_def zero_float32_def)
  then have "Fin 0 \<le> fround (a * b)"
    by (rule fround_nonneg)
  then show ?thesis
    by (simp add: x y times_float32_def zero_float32_def)
qed (use assms in \<open>simp_all add: less_eq_float32_def zero_float32_def times_float32_def split: if_splits\<close>)

text \<open>
  Adding a value that is not negative to a representable value does not go below it,
  unless the sum is NaN.
\<close>

lemma float32_add_nonneg:
  fixes g y :: float32
  assumes "is_float32 g" and "0 \<le> y" and "g + y \<noteq> NaN"
  shows "g \<le> g + y"
proof (cases g; cases y)
  fix a b
  assume g: "g = Fin a" and y: "y = Fin b"
  have "a \<in> float32_grid"
    using assms(1) by (simp add: g is_float32_def)
  moreover have "a \<le> a + b"
    using assms(2) by (simp add: y less_eq_float32_def zero_float32_def)
  ultimately have "Fin a \<le> fround (a + b)"
    by (rule fround_ge)
  then show ?thesis
    by (simp add: g y plus_float32_def)
qed (use assms in \<open>simp_all add: less_eq_float32_def zero_float32_def plus_float32_def\<close>)

lemma grid_member:
  assumes "- (2 ^ 24 - 1) \<le> m" "m \<le> 2 ^ 24 - 1" "k \<le> 253"
  shows "real_of_int m * 2 ^ k / 2 ^ 149 \<in> float32_grid"
proof -
  have "(m, k) \<in> {- (2 ^ 24 - 1) .. 2 ^ 24 - 1 :: int} \<times> {0 .. 253 :: nat}"
    using assms by simp
  then have "(\<lambda>(m, k). real_of_int m * 2 ^ k / 2 ^ 149) (m, k) \<in> float32_grid"
    unfolding float32_grid_def by (rule imageI)
  then show ?thesis by simp
qed

lemma neg_max_in_grid: "- float32_max \<in> float32_grid"
proof -
  have "real_of_int (- (2 ^ 24 - 1)) * 2 ^ 253 / 2 ^ 149 \<in> float32_grid"
    by (rule grid_member) simp_all
  moreover have "(2 :: real) ^ 253 / 2 ^ 149 = 2 ^ 104"
    by (simp add: power_diff [symmetric])
  ultimately show ?thesis
    by (simp add: float32_max_def)
qed

lemma round_down_grid:
  assumes "g \<in> float32_grid"
  shows "round_down g = g"
proof -
  have "Max {x \<in> float32_grid. x \<le> g} = g"
    using assms finite_grid by (intro Max_eqI) simp_all
  then show ?thesis by (simp add: round_down_def)
qed

lemma round_up_grid:
  assumes "g \<in> float32_grid"
  shows "round_up g = g"
proof -
  have "Min {x \<in> float32_grid. g \<le> x} = g"
    using assms finite_grid by (intro Min_eqI) simp_all
  then show ?thesis by (simp add: round_up_def)
qed

text \<open>A representable value is rounded to itself.\<close>

lemma fround_grid:
  assumes "g \<in> float32_grid"
  shows "fround g = Fin g"
  using grid_bounds [OF assms]
  by (simp add: fround_def round_down_grid [OF assms] round_up_grid [OF assms])

lemma round_down_in_grid:
  assumes "- float32_max \<le> r"
  shows "round_down r \<in> float32_grid"
proof -
  have "finite {g \<in> float32_grid. g \<le> r}"
    using finite_grid by simp
  moreover have "{g \<in> float32_grid. g \<le> r} \<noteq> {}"
    using assms neg_max_in_grid by auto
  ultimately have "round_down r \<in> {g \<in> float32_grid. g \<le> r}"
    unfolding round_down_def by (rule Max_in)
  then show ?thesis by simp
qed

lemma round_up_in_grid:
  assumes "r \<le> float32_max"
  shows "round_up r \<in> float32_grid"
proof -
  have "finite {g \<in> float32_grid. r \<le> g}"
    using finite_grid by simp
  moreover have "{g \<in> float32_grid. r \<le> g} \<noteq> {}"
    using assms max_in_grid by auto
  ultimately have "round_up r \<in> {g \<in> float32_grid. r \<le> g}"
    unfolding round_up_def by (rule Min_in)
  then show ?thesis by simp
qed

text \<open>Every rounded result is a value of the format.\<close>

lemma fround_is_float32: "is_float32 (fround r)"
proof -
  consider "float32_max < r" | "r < - float32_max" | "- float32_max \<le> r" "r \<le> float32_max"
    by linarith
  then show ?thesis
  proof cases
    case 1
    then show ?thesis
      by (simp add: fround_def is_float32_def max_in_grid)
  next
    case 2
    then have "\<not> float32_max < r"
      using grid_bounds [OF max_in_grid] by linarith
    with 2 show ?thesis
      by (simp add: fround_def is_float32_def neg_max_in_grid)
  next
    case 3
    then show ?thesis
      by (simp add: fround_def is_float32_def Let_def round_down_in_grid round_up_in_grid)
  qed
qed

lemma grid_examples:
  "1 \<in> float32_grid" "2 \<in> float32_grid" "1 / 2 \<in> float32_grid" "5 / 2 \<in> float32_grid"
proof -
  have "real_of_int 1 * 2 ^ 149 / 2 ^ 149 \<in> float32_grid"
    by (rule grid_member) simp_all
  then show "1 \<in> float32_grid" by simp
  have "real_of_int 1 * 2 ^ 150 / 2 ^ 149 \<in> float32_grid"
    by (rule grid_member) simp_all
  then show "2 \<in> float32_grid" by simp
  have "real_of_int 1 * 2 ^ 148 / 2 ^ 149 \<in> float32_grid"
    by (rule grid_member) simp_all
  then show "1 / 2 \<in> float32_grid" by simp
  have "real_of_int 5 * 2 ^ 148 / 2 ^ 149 \<in> float32_grid"
    by (rule grid_member) simp_all
  then show "5 / 2 \<in> float32_grid" by simp
qed

section \<open>Properties of the dynamic smoother\<close>

subsection \<open>The output lags the state by one sample\<close>

lemma dynamic_smoother_run_snoc:
  "dynamic_smoother_run d (xs @ [s])
     = (fst (dynamic_smoother_run d xs) @ [fst (dynamic_smoother_call (snd (dynamic_smoother_run d xs)) s)],
        snd (dynamic_smoother_call (snd (dynamic_smoother_run d xs)) s))"
  by (induction xs arbitrary: d) (simp_all split: prod.splits)

text \<open>
  Claim C1.  A call returns the value the second stage \<open>low2\<close> held before the
  call, whatever the sample is; the gain of the call is computed from the
  bandpass term \<open>low1 - low2\<close> of the state the call finds, that is, the state
  at the end of the previous call; both stages are then updated with this gain.
  In a stream, the output of the call that follows the samples \<open>xs\<close> is the
  \<open>low2\<close> reached after \<open>xs\<close>: the output lags the state update by one sample.
\<close>

theorem dynamic_smoother_call_lag:
  fixes d :: "('f::{plus,minus,times,abs,ord,one}) dynamic_smoother"
  shows "fst (dynamic_smoother_call d s) = low2 d
       \<and> dynamic_smoother_gain d = std_min (g0 d + sense d * \<bar>low1 d - low2 d\<bar>) 1
       \<and> low1 (snd (dynamic_smoother_call d s))
           = low1 d + dynamic_smoother_gain d * (s - low1 d)
       \<and> low2 (snd (dynamic_smoother_call d s))
           = low2 d + dynamic_smoother_gain d * (low1 (snd (dynamic_smoother_call d s)) - low2 d)
       \<and> fst (dynamic_smoother_run d (xs @ [s]))
           = fst (dynamic_smoother_run d xs) @ [low2 (snd (dynamic_smoother_run d xs))]"
  by (simp add: dynamic_smoother_run_snoc) (simp add: dynamic_smoother_call_def dynamic_smoother_gain_def Let_def)

subsection \<open>Re-tuning\<close>

text \<open>
  Claim C9.  \<^verbatim>\<open>base_frequency(base, sps)\<close> sets \<open>wc\<close> to \<open>base / sps\<close> and \<open>g0\<close>
  to \<open>2 * gc / (1 + gc)\<close> with \<open>gc = tan (pi * wc)\<close> for the new \<open>wc\<close>, the
  same pair that the constructor computes for this base frequency and sampling
  rate, and leaves \<open>low1\<close>, \<open>low2\<close> and \<open>sense\<close> as they are.  (Where the
  source divides by zero, for \<open>sps = 0\<close> or \<open>gc = - 1\<close>, the value of the
  quotient differs between floating point and the reals; the equations between the
  members are the same.)
\<close>

theorem dynamic_smoother_base_frequency_spec:
  "wc (dynamic_smoother_base_frequency d base sps) = base / real (unat sps)
   \<and> g0 (dynamic_smoother_base_frequency d base sps)
       = 2 * tan (pi * wc (dynamic_smoother_base_frequency d base sps))
           / (1 + tan (pi * wc (dynamic_smoother_base_frequency d base sps)))
   \<and> wc (dynamic_smoother_base_frequency d base sps) = wc (dynamic_smoother_new base sensitivity sps)
   \<and> g0 (dynamic_smoother_base_frequency d base sps) = g0 (dynamic_smoother_new base sensitivity sps)
   \<and> low1 (dynamic_smoother_base_frequency d base sps) = low1 d
   \<and> low2 (dynamic_smoother_base_frequency d base sps) = low2 d
   \<and> sense (dynamic_smoother_base_frequency d base sps) = sense d"
  by (simp add: dynamic_smoother_base_frequency_def dynamic_smoother_new_def Let_def)

subsection \<open>Bounds of the dynamic gain\<close>

lemma g0_16k_48k: "g0 (dynamic_smoother_new_default 16000 48000) = 2 * sqrt 3 / (1 + sqrt 3)"
proof -
  have "pi * (16000 / 48000) = pi / 3" by simp
  then show ?thesis
    by (simp add: dynamic_smoother_new_default_def dynamic_smoother_new_def Let_def tan_60)
qed

lemma g0_16k_48k_gt_1: "1 < 2 * sqrt 3 / (1 + sqrt 3)"
proof -
  have s: "1 < sqrt 3" by simp
  then have p: "0 < 1 + sqrt 3" by linarith
  have "1 * (1 + sqrt 3) < 2 * sqrt 3" using s by simp
  with p show ?thesis by (simp only: pos_less_divide_eq)
qed

text \<open>
  Claim C2 says that the gain is never below the base gain \<open>g0\<close>, for any base
  frequency and sampling rate.  A base frequency of 16 kHz at 48000 samples per
  second gives \<open>wc = 1/3\<close>, \<open>gc = sqrt 3\<close> and a base gain above one, so the
  clamp to \<open>1.0\<close> puts the gain of the very first call below \<open>g0\<close>.
\<close>

theorem dynamic_smoother_gain_counterexample:
  "\<not> g0 (dynamic_smoother_new_default 16000 48000)
       \<le> dynamic_smoother_gain (dynamic_smoother_new_default 16000 48000)"
proof -
  have "dynamic_smoother_gain (dynamic_smoother_new_default 16000 48000)
      = std_min (g0 (dynamic_smoother_new_default 16000 48000)) 1"
    by (simp add: dynamic_smoother_gain_def dynamic_smoother_new_default_def dynamic_smoother_new_def Let_def)
  also have "\<dots> = 1"
    using g0_16k_48k_gt_1 by (simp add: std_min_def g0_16k_48k)
  finally show ?thesis
    using g0_16k_48k_gt_1 by (simp add: g0_16k_48k)
qed

subsection \<open>The dynamic gain in exact arithmetic\<close>

text \<open>
  With real numbers in place of \<^verbatim>\<open>float\<close> the gain is at most one and at least
  the smaller of \<open>g0\<close> and one, for a \<open>sense\<close> that is not negative; and the
  constructor yields a base gain of at most one for a base frequency between zero and
  a quarter of the sampling rate.
\<close>

lemma dynamic_smoother_call_coeffs:
  "g0 (snd (dynamic_smoother_call d s)) = g0 d"
  "sense (snd (dynamic_smoother_call d s)) = sense d"
  "wc (snd (dynamic_smoother_call d s)) = wc d"
  by (simp_all add: dynamic_smoother_call_def Let_def)

lemma dynamic_smoother_run_coeffs:
  "g0 (snd (dynamic_smoother_run d xs)) = g0 d
   \<and> sense (snd (dynamic_smoother_run d xs)) = sense d
   \<and> wc (snd (dynamic_smoother_run d xs)) = wc d"
proof (induction xs arbitrary: d)
  case Nil
  then show ?case by simp
next
  case (Cons s ss)
  have "snd (dynamic_smoother_run d (s # ss))
      = snd (dynamic_smoother_run (snd (dynamic_smoother_call d s)) ss)"
    by (simp split: prod.splits)
  with Cons.IH [of "snd (dynamic_smoother_call d s)"] show ?case
    by (simp only: dynamic_smoother_call_coeffs)
qed

lemma gain_le_1: "dynamic_smoother_gain (d :: real dynamic_smoother) \<le> 1"
  by (simp add: dynamic_smoother_gain_def std_min_def Let_def)

lemma gain_ge_min:
  fixes d :: "real dynamic_smoother"
  assumes "0 \<le> sense d"
  shows "min (g0 d) 1 \<le> dynamic_smoother_gain d"
proof -
  have "0 \<le> sense d * \<bar>low1 d - low2 d\<bar>"
    using assms by simp
  then show ?thesis
    by (simp add: dynamic_smoother_gain_def std_min_def Let_def)
qed

text \<open>Up to a quarter of the sampling rate the base gain lies between zero and one.\<close>

lemma tan_quarter_range:
  assumes "0 \<le> w" and "w \<le> 1 / 4"
  shows "0 \<le> tan (pi * w)" and "tan (pi * w) \<le> 1"
proof -
  have lo: "0 \<le> pi * w"
    using assms(1) by simp
  have hi: "pi * w \<le> pi / 4"
    using assms(2) by (simp add: field_simps)
  have "pi / 4 < pi / 2"
    by simp
  with hi have lt: "pi * w < pi / 2"
    by linarith
  have neg: "- (pi / 2) < 0"
    by simp
  have "tan 0 \<le> tan (pi * w)"
    using neg lo lt by (rule tan_mono_le)
  then show "0 \<le> tan (pi * w)"
    by simp
  have "- (pi / 2) < pi * w"
    using neg lo by linarith
  then have "tan (pi * w) \<le> tan (pi / 4)"
    using hi \<open>pi / 4 < pi / 2\<close> by (rule tan_mono_le)
  then show "tan (pi * w) \<le> 1"
    by (simp add: tan_45)
qed

lemma dynamic_smoother_new_g0_range:
  assumes "sps \<noteq> 0" and "0 \<le> base" and "4 * base \<le> real (unat sps)"
  shows "0 \<le> g0 (dynamic_smoother_new base sensitivity sps)"
    and "g0 (dynamic_smoother_new base sensitivity sps) \<le> 1"
proof -
  define w where "w = base / real (unat sps)"
  have "0 < unat sps"
    using assms(1) by (simp add: unat_gt_0)
  then have pos: "0 < real (unat sps)"
    by (simp only: of_nat_0_less_iff)
  have w0: "0 \<le> w"
    using assms(2) pos by (simp add: w_def)
  have w1: "w \<le> 1 / 4"
    using assms(3) pos by (simp add: w_def field_simps)
  have t0: "0 \<le> tan (pi * w)" and t1: "tan (pi * w) \<le> 1"
    using w0 w1 by (rule tan_quarter_range)+
  have g: "g0 (dynamic_smoother_new base sensitivity sps) = 2 * tan (pi * w) / (1 + tan (pi * w))"
    by (simp add: dynamic_smoother_new_def Let_def w_def)
  show "0 \<le> g0 (dynamic_smoother_new base sensitivity sps)"
    using t0 by (simp add: g)
  have "0 < 1 + tan (pi * w)"
    using t0 by linarith
  moreover have "2 * tan (pi * w) \<le> 1 * (1 + tan (pi * w))"
    using t1 by simp
  ultimately show "g0 (dynamic_smoother_new base sensitivity sps) \<le> 1"
    by (simp only: g pos_divide_le_eq)
qed

lemma dynamic_smoother_gain_bounds_exact:
  fixes d :: "real dynamic_smoother"
  assumes "0 \<le> sense d"
  shows "dynamic_smoother_gain d \<le> 1
       \<and> min (g0 d) 1 \<le> dynamic_smoother_gain d
       \<and> (g0 d \<le> 1 \<longrightarrow> g0 d \<le> dynamic_smoother_gain d)
       \<and> (sps \<noteq> 0 \<and> 0 \<le> base \<and> 4 * base \<le> real (unat sps) \<and> 0 \<le> sensitivity \<longrightarrow>
            g0 (snd (dynamic_smoother_run (dynamic_smoother_new base sensitivity sps) xs))
              \<le> dynamic_smoother_gain (snd (dynamic_smoother_run (dynamic_smoother_new base sensitivity sps) xs))
          \<and> dynamic_smoother_gain (snd (dynamic_smoother_run (dynamic_smoother_new base sensitivity sps) xs))
              \<le> 1)"
proof -
  have a: "min (g0 d) 1 \<le> dynamic_smoother_gain d"
    using assms by (rule gain_ge_min)
  have b: "g0 d \<le> dynamic_smoother_gain d" if "g0 d \<le> 1"
    using a that by simp
  have c: "g0 (snd (dynamic_smoother_run (dynamic_smoother_new base sensitivity sps) xs))
              \<le> dynamic_smoother_gain (snd (dynamic_smoother_run (dynamic_smoother_new base sensitivity sps) xs))"
    if h: "sps \<noteq> 0" "0 \<le> base" "4 * base \<le> real (unat sps)" "0 \<le> sensitivity"
  proof -
    let ?e = "snd (dynamic_smoother_run (dynamic_smoother_new base sensitivity sps) xs)"
    have "sense ?e = sensitivity * 4"
      by (simp add: dynamic_smoother_run_coeffs dynamic_smoother_new_def Let_def)
    then have "0 \<le> sense ?e"
      using h(4) by simp
    then have m: "min (g0 ?e) 1 \<le> dynamic_smoother_gain ?e"
      by (rule gain_ge_min)
    have "g0 ?e = g0 (dynamic_smoother_new base sensitivity sps)"
      by (simp add: dynamic_smoother_run_coeffs)
    then have "g0 ?e \<le> 1"
      using dynamic_smoother_new_g0_range(2) [OF h(1,2,3), of sensitivity] by simp
    with m show ?thesis by simp
  qed
  from a b c show ?thesis
    by (simp add: gain_le_1)
qed

lemma float32_sense_nonneg:
  fixes sensitivity :: float32
  assumes "0 \<le> sensitivity"
  shows "0 \<le> sensitivity * Fin 4"
proof (cases sensitivity)
  case (Fin a)
  with assms have "0 \<le> a * 4"
    by (simp add: less_eq_float32_def zero_float32_def)
  then have "Fin 0 \<le> fround (a * 4)"
    by (rule fround_nonneg)
  with Fin show ?thesis
    by (simp add: times_float32_def zero_float32_def)
qed (use assms in \<open>simp_all add: less_eq_float32_def zero_float32_def times_float32_def\<close>)

subsection \<open>The dynamic gain in floating point\<close>

text \<open>
  Claim C2, amended.  Take an instance in single-precision arithmetic whose
  \<open>sense\<close> is not negative (the constructor sets it to four times the
  sensitivity, which is not negative when the sensitivity is not), in any state of
  its two stages, and a call on which the computed gain \<open>g\<close> is not NaN.  Then
  \<open>g \<le> 1\<close>; if \<open>g0 \<le> 1\<close> then \<open>g0 \<le> g\<close>, and if \<open>g0 > 1\<close> then
  \<open>g = 1\<close>, below \<open>g0\<close>.  The gain is NaN when \<open>g0 + sense * \<bar>low1 - low2\<bar>\<close>
  is, as after an overflow of the stages to infinity.
\<close>

theorem dynamic_smoother_gain_bounds:
  fixes d :: "float32 dynamic_smoother"
  assumes "is_float32 (g0 d)" and "0 \<le> sense d" and "dynamic_smoother_gain d \<noteq> NaN"
  shows "dynamic_smoother_gain d \<le> 1
       \<and> (g0 d \<le> 1 \<longrightarrow> g0 d \<le> dynamic_smoother_gain d)
       \<and> (1 < g0 d \<longrightarrow> dynamic_smoother_gain d = 1)"
proof -
  define y where "y = sense d * \<bar>low1 d - low2 d\<bar>"
  define t where "t = g0 d + y"
  have gain: "dynamic_smoother_gain d = (if 1 < t then 1 else t)"
    by (simp add: dynamic_smoother_gain_def std_min_def Let_def t_def y_def)
  have one: "(1 :: float32) \<noteq> NaN"
    by (simp add: one_float32_def)
  have t: "t \<noteq> NaN"
  proof (cases "1 < t")
    case True
    then show ?thesis by (simp add: float32_less_not_NaN)
  next
    case False
    with assms(3) show ?thesis by (simp add: gain)
  qed
  have y: "y \<noteq> NaN"
    using t float32_add_NaN_right [of "g0 d"] unfolding t_def by auto
  then have "\<bar>low1 d - low2 d\<bar> \<noteq> NaN"
    using float32_mul_NaN_right [of "sense d"] unfolding y_def by auto
  then have "0 \<le> \<bar>low1 d - low2 d\<bar>"
    by (simp add: float32_abs_NaN float32_abs_nonneg)
  with assms(2) have "0 \<le> y"
    using y unfolding y_def by (rule float32_mul_nonneg)
  with assms(1) have ge: "g0 d \<le> t"
    using t unfolding t_def by (rule float32_add_nonneg)
  have a: "dynamic_smoother_gain d \<le> 1"
  proof (cases "1 < t")
    case True
    then show ?thesis by (simp add: gain float32_le_refl one)
  next
    case False
    with one t have "t \<le> 1" by (rule float32_total)
    with False show ?thesis by (simp add: gain)
  qed
  have b: "g0 d \<le> dynamic_smoother_gain d" if "g0 d \<le> 1"
    using that ge by (simp add: gain)
  have c: "dynamic_smoother_gain d = 1" if "1 < g0 d"
  proof -
    from that ge have "1 < t" by (rule float32_less_le_trans)
    then show ?thesis by (simp add: gain)
  qed
  from a b c show ?thesis by simp
qed

theorem dynamic_smoother_gain_bounds_witness:
  "is_float32 (g0 \<lparr>sense = Fin 2, wc = Fin 0, g0 = Fin (1 / 2), low1 = Fin 1, low2 = Fin 0\<rparr>)
   \<and> 0 \<le> sense \<lparr>sense = Fin 2, wc = Fin 0, g0 = Fin (1 / 2), low1 = Fin 1, low2 = Fin 0\<rparr>
   \<and> dynamic_smoother_gain \<lparr>sense = Fin 2, wc = Fin 0, g0 = Fin (1 / 2), low1 = Fin 1, low2 = Fin 0\<rparr>
       \<noteq> NaN
   \<and> g0 \<lparr>sense = Fin 2, wc = Fin 0, g0 = Fin (1 / 2), low1 = Fin 1, low2 = Fin 0\<rparr> \<le> 1
   \<and> g0 \<lparr>sense = Fin 2, wc = Fin 0, g0 = Fin (1 / 2), low1 = Fin 1, low2 = Fin 0\<rparr>
       \<le> dynamic_smoother_gain \<lparr>sense = Fin 2, wc = Fin 0, g0 = Fin (1 / 2), low1 = Fin 1, low2 = Fin 0\<rparr>
   \<and> dynamic_smoother_gain \<lparr>sense = Fin 2, wc = Fin 0, g0 = Fin (1 / 2), low1 = Fin 1, low2 = Fin 0\<rparr>
       \<le> 1"
proof -
  let ?d = "\<lparr>sense = Fin 2, wc = Fin 0, g0 = Fin (1 / 2), low1 = Fin 1, low2 = Fin 0\<rparr>"
  have h1: "is_float32 (g0 ?d)"
    by (simp add: is_float32_def grid_examples)
  have h2: "0 \<le> sense ?d"
    by (simp add: less_eq_float32_def zero_float32_def)
  have "dynamic_smoother_gain ?d = Fin 1"
    by (simp add: dynamic_smoother_gain_def std_min_def Let_def minus_float32_def abs_float32_def
        times_float32_def plus_float32_def less_float32_def one_float32_def
        fround_grid [OF grid_examples(1)] fround_grid [OF grid_examples(2)]
        fround_grid [OF grid_examples(4)])
  then have h3: "dynamic_smoother_gain ?d \<noteq> NaN"
    by simp
  have le: "g0 ?d \<le> 1"
    by (simp add: less_eq_float32_def one_float32_def)
  from h1 h2 h3 le dynamic_smoother_gain_bounds [OF h1 h2 h3] show ?thesis
    by simp
qed

text \<open>
  Two finite samples, the largest finite value and its negation, drive both stages
  of an instance with base gain one to minus infinity; the bandpass term of the next
  call is then NaN, and so is its gain.
\<close>

lemma fround_overflow: "fround (- (2 * float32_max)) = NInf"
  by (simp add: fround_def float32_max_def)

lemma dynamic_smoother_gain_overflow:
  "dynamic_smoother_run \<lparr>sense = Fin 2, wc = Fin 0, g0 = Fin 1, low1 = Fin 0, low2 = Fin 0\<rparr>
       [Fin float32_max, Fin (- float32_max)]
     = ([Fin 0, Fin float32_max],
        \<lparr>sense = Fin 2, wc = Fin 0, g0 = Fin 1, low1 = NInf, low2 = NInf\<rparr>)"
  and "dynamic_smoother_gain \<lparr>sense = Fin 2, wc = Fin 0, g0 = Fin 1, low1 = NInf, low2 = NInf\<rparr> = NaN"
  and "\<not> dynamic_smoother_gain \<lparr>sense = Fin 2, wc = Fin 0, g0 = Fin 1, low1 = NInf, low2 = NInf\<rparr> \<le> 1"
proof -
  note fr = fround_grid [OF zero_in_grid] fround_grid [OF grid_examples(1)]
    fround_grid [OF max_in_grid] fround_overflow
  note ops = minus_float32_def abs_float32_def times_float32_def plus_float32_def
    less_float32_def less_eq_float32_def one_float32_def
  have pos: "0 < float32_max"
    by (simp add: float32_max_def)
  show "dynamic_smoother_run \<lparr>sense = Fin 2, wc = Fin 0, g0 = Fin 1, low1 = Fin 0, low2 = Fin 0\<rparr>
       [Fin float32_max, Fin (- float32_max)]
     = ([Fin 0, Fin float32_max],
        \<lparr>sense = Fin 2, wc = Fin 0, g0 = Fin 1, low1 = NInf, low2 = NInf\<rparr>)"
    using pos
    by (simp add: dynamic_smoother_call_def dynamic_smoother_gain_def std_min_def Let_def ops fr)
  show g: "dynamic_smoother_gain \<lparr>sense = Fin 2, wc = Fin 0, g0 = Fin 1, low1 = NInf, low2 = NInf\<rparr> = NaN"
    by (simp add: dynamic_smoother_gain_def std_min_def Let_def ops)
  show "\<not> dynamic_smoother_gain \<lparr>sense = Fin 2, wc = Fin 0, g0 = Fin 1, low1 = NInf, low2 = NInf\<rparr> \<le> 1"
    unfolding g by (simp add: less_eq_float32_def)
qed

section \<open>Properties of the zero-crossing detector\<close>

subsection \<open>A fresh instance\<close>

text \<open>
  Claim C10.  On a freshly constructed instance, before any sample has been
  processed, \<^verbatim>\<open>edge()\<close> returns true: the counter starts at zero, the value it
  has right after a transition.
\<close>

theorem zero_cross_fresh_edge:
  "zero_cross_new hysteresis min_period sps = Some z \<Longrightarrow> zero_cross_edge z"
  by (auto simp: zero_cross_new_def zero_cross_edge_def split: option.splits)

theorem zero_cross_fresh_edge_witness:
  "zero_cross_new (1 / 10 :: real) (1 / 1000) 44100
     = Some \<lparr>zc_hysteresis = 1 / 10, zc_min_samples = (44 :: 64 word),
             zc_state = False, zc_count = 0\<rparr>
   \<and> zero_cross_edge \<lparr>zc_hysteresis = 1 / 10 :: real, zc_min_samples = (44 :: 64 word),
             zc_state = False, zc_count = 0\<rparr>"
proof -
  have "\<lfloor>441 / 10 :: real\<rfloor> = 44"
    by (simp add: floor_eq_iff)
  then have c: "zero_cross_new (1 / 10 :: real) (1 / 1000) 44100
     = Some \<lparr>zc_hysteresis = 1 / 10, zc_min_samples = (44 :: 64 word),
             zc_state = False, zc_count = 0\<rparr>"
    by (simp add: zero_cross_new_def size_t_of_double_def)
  from c zero_cross_fresh_edge [OF c] show ?thesis
    by simp
qed

subsection \<open>Debounce\<close>

lemma zero_cross_call_min_samples:
  "zc_min_samples (snd (zero_cross_call z s)) = zc_min_samples z"
  by (simp add: zero_cross_call_def Let_def)

lemma zero_cross_call_hysteresis:
  "zc_hysteresis (snd (zero_cross_call z s)) = zc_hysteresis z"
  by (simp add: zero_cross_call_def Let_def)

lemma zero_cross_run_append:
  "zero_cross_run z (xs @ ys) = zero_cross_run (zero_cross_run z xs) ys"
  by (induction xs arbitrary: z) simp_all

lemma zero_cross_run_min_samples:
  "zc_min_samples (zero_cross_run z xs) = zc_min_samples z"
  by (induction xs arbitrary: z) (simp_all add: zero_cross_call_min_samples)

lemma zero_cross_run_hysteresis:
  "zc_hysteresis (zero_cross_run z xs) = zc_hysteresis z"
  by (induction xs arbitrary: z) (simp_all add: zero_cross_call_hysteresis)

text \<open>One call advances the counter by at most one.\<close>

lemma unat_succ_le: "unat (c + 1 :: 'w::len word) \<le> unat c + 1"
  by (simp add: unat_word_ariths)

lemma zero_cross_call_count_le:
  "unat (zc_count (snd (zero_cross_call z s))) \<le> unat (zc_count z) + 1"
  using unat_succ_le [of "zc_count z"]
  by (simp add: zero_cross_call_def Let_def)

lemma zero_cross_run_count_le:
  "unat (zc_count (zero_cross_run z xs)) \<le> unat (zc_count z) + length xs"
proof (induction xs arbitrary: z)
  case Nil
  then show ?case by simp
next
  case (Cons s ss)
  have "unat (zc_count (zero_cross_run (snd (zero_cross_call z s)) ss))
      \<le> unat (zc_count (snd (zero_cross_call z s))) + length ss"
    by (rule Cons.IH)
  also have "\<dots> \<le> unat (zc_count z) + 1 + length ss"
    using zero_cross_call_count_le [of z s] by simp
  finally show ?case by simp
qed

text \<open>
  A call leaves the counter at zero only when it was past the debounce window:
  inside the window the counter is incremented, and it cannot wrap there because it
  is below \<open>zc_min_samples\<close>.
\<close>

lemma succ_neq_0_if_less: "c < k \<Longrightarrow> c + 1 \<noteq> (0 :: 'w::len word)"
proof
  assume "c < k" and "c + 1 = 0"
  then have "c = - 1" by (simp add: max_word_wrap)
  with \<open>c < k\<close> max_word_max [of k] show False by simp
qed

lemma zero_cross_call_edge_past_window:
  assumes "zc_count (snd (zero_cross_call z s)) = 0"
  shows "zc_min_samples z \<le> zc_count z"
proof (rule ccontr)
  assume "\<not> zc_min_samples z \<le> zc_count z"
  then have less: "zc_count z < zc_min_samples z" by simp
  then have "zc_count (snd (zero_cross_call z s)) = zc_count z + 1"
    by (simp add: zero_cross_call_def Let_def)
  with assms succ_neq_0_if_less [OF less] show False by simp
qed

text \<open>
  Claim C5.  Let \<open>k\<close> be \<open>zc_min_samples\<close>.  If \<^verbatim>\<open>edge()\<close> is true right after
  call number \<open>i\<close> and right after a later call number \<open>j\<close> of any input sequence
  \<open>xs\<close>, the two calls are more than \<open>k\<close> samples apart; so no two reported
  transitions are closer together than \<open>k\<close> samples.  (Calls are numbered from 1;
  \<open>i = 0\<close> is the state before the first call.)
\<close>

theorem zero_cross_debounce:
  fixes z :: "('f::{ord,uminus,zero,one}, ('w::len) word) zero_cross"
  assumes "i < j" and "j \<le> length xs"
    and "zero_cross_edge (zero_cross_run z (take i xs))"
    and "zero_cross_edge (zero_cross_run z (take j xs))"
  shows "unat (zc_min_samples z) < j - i"
proof -
  define m where "m = j - 1"
  define zi where "zi = zero_cross_run z (take i xs)"
  define zm where "zm = zero_cross_run z (take m xs)"
  have m: "i \<le> m" "m < length xs" "j = Suc m"
    using assms(1,2) by (simp_all add: m_def)
  have "take i (take m xs) = take i xs"
    using m(1) by (simp add: min_absorb1)
  then have split: "take i xs @ drop i (take m xs) = take m xs"
    using append_take_drop_id [of i "take m xs"] by simp
  have "zero_cross_run zi (drop i (take m xs))
      = zero_cross_run z (take i xs @ drop i (take m xs))"
    by (simp add: zi_def zero_cross_run_append)
  also have "\<dots> = zm"
    by (simp only: split zm_def)
  finally have zm_from_zi: "zm = zero_cross_run zi (drop i (take m xs))"
    by simp
  have "take j xs = take m xs @ [xs ! m]"
    using m(2,3) by (simp add: take_Suc_conv_app_nth)
  then have "zero_cross_run z (take j xs) = snd (zero_cross_call zm (xs ! m))"
    by (simp add: zero_cross_run_append zm_def)
  with assms(4) have "zc_count (snd (zero_cross_call zm (xs ! m))) = 0"
    by (simp add: zero_cross_edge_def)
  then have "zc_min_samples zm \<le> zc_count zm"
    by (rule zero_cross_call_edge_past_window)
  then have "unat (zc_min_samples z) \<le> unat (zc_count zm)"
    by (simp add: zm_def zero_cross_run_min_samples word_le_nat_alt)
  also have "\<dots> \<le> unat (zc_count zi) + length (drop i (take m xs))"
    unfolding zm_from_zi by (rule zero_cross_run_count_le)
  also have "\<dots> = m - i"
    using assms(3) m(2) by (simp add: zi_def zero_cross_edge_def)
  finally show ?thesis
    using m by simp
qed

theorem zero_cross_debounce_witness:
  "(2::nat) < 4
   \<and> 4 \<le> length [1, 1, - 1, - 1 :: real]
   \<and> zero_cross_edge (zero_cross_run
         \<lparr>zc_hysteresis = 1 / 2 :: real, zc_min_samples = 1 :: 64 word, zc_state = False, zc_count = 0\<rparr>
         (take 2 [1, 1, - 1, - 1]))
   \<and> zero_cross_edge (zero_cross_run
         \<lparr>zc_hysteresis = 1 / 2 :: real, zc_min_samples = 1 :: 64 word, zc_state = False, zc_count = 0\<rparr>
         (take 4 [1, 1, - 1, - 1]))
   \<and> unat (zc_min_samples
         \<lparr>zc_hysteresis = 1 / 2 :: real, zc_min_samples = 1 :: 64 word, zc_state = False, zc_count = 0\<rparr>)
       < 4 - 2"
proof -
  let ?z = "\<lparr>zc_hysteresis = 1 / 2 :: real, zc_min_samples = 1 :: 64 word,
              zc_state = False, zc_count = 0\<rparr>"
  let ?xs = "[1, 1, - 1, - 1 :: real]"
  have h1: "(2::nat) < 4" by simp
  have h2: "4 \<le> length ?xs" by simp
  have h3: "zero_cross_edge (zero_cross_run ?z (take 2 ?xs))"
    by (simp add: zero_cross_edge_def zero_cross_call_def Let_def)
  have h4: "zero_cross_edge (zero_cross_run ?z (take 4 ?xs))"
    by (simp add: zero_cross_edge_def zero_cross_call_def Let_def)
  from h1 h2 h3 h4 zero_cross_debounce [OF h1 h2 h3 h4] show ?thesis
    by simp
qed

subsection \<open>Hysteresis band\<close>

lemma zero_cross_call_in_band:
  fixes z :: "('f::{order,uminus,zero,one}, ('w::len) word) zero_cross"
  assumes "- zc_hysteresis z < s" and "s < zc_hysteresis z"
  shows "zc_state (snd (zero_cross_call z s)) = zc_state z"
    and "zc_count (snd (zero_cross_call z s)) = zc_count z + 1"
    and "fst (zero_cross_call z s) = float_of_bool (zc_state z)"
proof -
  have no_up: "\<not> zc_hysteresis z < s"
    using assms(2) by (simp add: less_not_sym)
  have no_down: "\<not> s < - zc_hysteresis z"
    using assms(1) by (simp add: less_not_sym)
  show "zc_state (snd (zero_cross_call z s)) = zc_state z"
    using no_up no_down by (simp add: zero_cross_call_def Let_def)
  show "zc_count (snd (zero_cross_call z s)) = zc_count z + 1"
    using no_up no_down by (simp add: zero_cross_call_def Let_def)
  show "fst (zero_cross_call z s) = float_of_bool (zc_state z)"
    using no_up no_down by (simp add: zero_cross_call_def Let_def)
qed

lemma zero_cross_run_in_band:
  fixes z :: "('f::{order,uminus,zero,one}, ('w::len) word) zero_cross"
  assumes "\<forall>s\<in>set xs. - zc_hysteresis z < s \<and> s < zc_hysteresis z"
  shows "zc_state (zero_cross_run z xs) = zc_state z
       \<and> zc_count (zero_cross_run z xs) = zc_count z + of_nat (length xs)"
  using assms
proof (induction xs arbitrary: z)
  case Nil
  then show ?case by simp
next
  case (Cons s ss)
  let ?z' = "snd (zero_cross_call z s)"
  have s: "- zc_hysteresis z < s" "s < zc_hysteresis z"
    using Cons.prems by simp_all
  have "\<forall>t\<in>set ss. - zc_hysteresis ?z' < t \<and> t < zc_hysteresis ?z'"
    using Cons.prems by (simp add: zero_cross_call_hysteresis)
  then have "zc_state (zero_cross_run ?z' ss) = zc_state ?z'
       \<and> zc_count (zero_cross_run ?z' ss) = zc_count ?z' + of_nat (length ss)"
    by (rule Cons.IH)
  then show ?case
    by (simp add: zero_cross_call_in_band [OF s])
qed

text \<open>
  Claim C8.  When every sample of the input sequence lies strictly between
  \<open>- zc_hysteresis\<close> and \<open>zc_hysteresis\<close>, the boolean state after any number
  \<open>n\<close> of calls is the initial one, whatever the initial state is; no call takes
  a transition branch (each one only increments the counter) and every call
  returns the initial state.  The samples are ordered by a partial order, which
  covers floating-point comparison, where a NaN is comparable with nothing.
\<close>

theorem zero_cross_hysteresis_band:
  fixes z :: "('f::{order,uminus,zero,one}, ('w::len) word) zero_cross"
  assumes "\<forall>s\<in>set xs. - zc_hysteresis z < s \<and> s < zc_hysteresis z"
  shows "zc_state (zero_cross_run z (take n xs)) = zc_state z
       \<and> zc_count (zero_cross_run z (take n xs)) = zc_count z + of_nat (min n (length xs))
       \<and> (n < length xs \<longrightarrow>
            fst (zero_cross_call (zero_cross_run z (take n xs)) (xs ! n)) = float_of_bool (zc_state z))"
proof -
  let ?zn = "zero_cross_run z (take n xs)"
  have "\<forall>s\<in>set (take n xs). - zc_hysteresis z < s \<and> s < zc_hysteresis z"
    using assms by (auto dest: in_set_takeD)
  then have run: "zc_state ?zn = zc_state z
       \<and> zc_count ?zn = zc_count z + of_nat (length (take n xs))"
    by (rule zero_cross_run_in_band)
  have out: "fst (zero_cross_call ?zn (xs ! n)) = float_of_bool (zc_state z)" if "n < length xs"
  proof -
    from that assms have "- zc_hysteresis z < xs ! n \<and> xs ! n < zc_hysteresis z"
      by simp
    then have "- zc_hysteresis ?zn < xs ! n" and "xs ! n < zc_hysteresis ?zn"
      by (simp_all add: zero_cross_run_hysteresis)
    then have "fst (zero_cross_call ?zn (xs ! n)) = float_of_bool (zc_state ?zn)"
      by (rule zero_cross_call_in_band)
    with run show ?thesis by simp
  qed
  from run out show ?thesis
    by (simp add: min.commute)
qed

theorem zero_cross_hysteresis_band_witness:
  "list_all (\<lambda>s. - zc_hysteresis \<lparr>zc_hysteresis = 1 / 2 :: real, zc_min_samples = 1 :: 64 word,
                                        zc_state = True, zc_count = 7\<rparr> < s
                 \<and> s < zc_hysteresis \<lparr>zc_hysteresis = 1 / 2 :: real, zc_min_samples = 1 :: 64 word,
                                          zc_state = True, zc_count = 7\<rparr>)
       [0, 1 / 4, - 1 / 4 :: real]
   \<and> zc_state (zero_cross_run
         \<lparr>zc_hysteresis = 1 / 2 :: real, zc_min_samples = 1 :: 64 word, zc_state = True, zc_count = 7\<rparr>
         (take 3 [0, 1 / 4, - 1 / 4])) = True
   \<and> fst (zero_cross_call (zero_cross_run
         \<lparr>zc_hysteresis = 1 / 2 :: real, zc_min_samples = 1 :: 64 word, zc_state = True, zc_count = 7\<rparr>
         (take 2 [0, 1 / 4, - 1 / 4])) ([0, 1 / 4, - 1 / 4] ! 2)) = 1"
proof -
  let ?z = "\<lparr>zc_hysteresis = 1 / 2 :: real, zc_min_samples = 1 :: 64 word,
              zc_state = True, zc_count = 7\<rparr>"
  let ?xs = "[0, 1 / 4, - 1 / 4 :: real]"
  have h: "\<forall>s\<in>set ?xs. - zc_hysteresis ?z < s \<and> s < zc_hysteresis ?z"
    by simp
  have n: "(2::nat) < length ?xs" by simp
  from h n zero_cross_hysteresis_band [OF h, of 3] zero_cross_hysteresis_band [OF h, of 2]
  show ?thesis
    by (simp add: float_of_bool_def)
qed

section \<open>Properties of the onset detector\<close>

subsection \<open>One call past the debounce window\<close>

text \<open>
  Claim C4.  For a call past the debounce window (the counter is not below
  \<open>on_min_samples\<close>), with \<open>pk\<close> the result of the internal peak detector on
  this call: if the state is quiet, \<open>pk\<close> holds and the sample exceeds the latched
  peak, the state becomes active, the sample is latched and the counter is reset;
  if the state is active and \<open>pk\<close> does not hold, the state becomes quiet and the
  counter is reset; in every other case the state and the latched peak are
  unchanged and the counter is not reset but incremented.  The call returns the
  new state.
\<close>

theorem onset_call_past_window:
  fixes z :: "('f::{ord,times}, 'c, ('w::len) word) onset"
  assumes "\<not> on_count z < on_min_samples z"
  shows "(\<not> on_state z \<and> fst (peak_call cmp (on_pk z) s env) \<and> on_current_peak z < s \<longrightarrow>
            on_state (snd (onset_call cmp z s env))
          \<and> on_current_peak (snd (onset_call cmp z s env)) = s
          \<and> on_count (snd (onset_call cmp z s env)) = 0)
       \<and> (on_state z \<and> \<not> fst (peak_call cmp (on_pk z) s env) \<longrightarrow>
            \<not> on_state (snd (onset_call cmp z s env))
          \<and> on_current_peak (snd (onset_call cmp z s env)) = on_current_peak z
          \<and> on_count (snd (onset_call cmp z s env)) = 0)
       \<and> (\<not> (\<not> on_state z \<and> fst (peak_call cmp (on_pk z) s env) \<and> on_current_peak z < s)
          \<and> \<not> (on_state z \<and> \<not> fst (peak_call cmp (on_pk z) s env)) \<longrightarrow>
            on_state (snd (onset_call cmp z s env)) = on_state z
          \<and> on_current_peak (snd (onset_call cmp z s env)) = on_current_peak z
          \<and> on_count (snd (onset_call cmp z s env)) = on_count z + 1)
       \<and> fst (onset_call cmp z s env) = on_state (snd (onset_call cmp z s env))"
  using assms
  by (cases "peak_call cmp (on_pk z) s env")
     (simp add: onset_call_def Let_def)

theorem onset_call_past_window_witness:
  "\<not> on_count \<lparr>on_pk = \<lparr>pk_droop = 8 / 10 :: real, pk_cmp = schmitt_trigger_new (5 / 1000)\<rparr>,
                   on_min_samples = 0 :: 64 word, on_state = False, on_count = 0,
                   on_current_peak = 0\<rparr>
       < on_min_samples \<lparr>on_pk = \<lparr>pk_droop = 8 / 10 :: real, pk_cmp = schmitt_trigger_new (5 / 1000)\<rparr>,
                   on_min_samples = 0 :: 64 word, on_state = False, on_count = 0,
                   on_current_peak = 0\<rparr>
   \<and> fst (peak_call schmitt_trigger_call
            \<lparr>pk_droop = 8 / 10 :: real, pk_cmp = schmitt_trigger_new (5 / 1000)\<rparr> 1 1)
   \<and> on_state (snd (onset_call schmitt_trigger_call
            \<lparr>on_pk = \<lparr>pk_droop = 8 / 10 :: real, pk_cmp = schmitt_trigger_new (5 / 1000)\<rparr>,
             on_min_samples = 0 :: 64 word, on_state = False, on_count = 0,
             on_current_peak = 0\<rparr> 1 1))
   \<and> on_current_peak (snd (onset_call schmitt_trigger_call
            \<lparr>on_pk = \<lparr>pk_droop = 8 / 10 :: real, pk_cmp = schmitt_trigger_new (5 / 1000)\<rparr>,
             on_min_samples = 0 :: 64 word, on_state = False, on_count = 0,
             on_current_peak = 0\<rparr> 1 1)) = 1
   \<and> on_count (snd (onset_call schmitt_trigger_call
            \<lparr>on_pk = \<lparr>pk_droop = 8 / 10 :: real, pk_cmp = schmitt_trigger_new (5 / 1000)\<rparr>,
             on_min_samples = 0 :: 64 word, on_state = False, on_count = 0,
             on_current_peak = 0\<rparr> 1 1)) = 0"
proof -
  let ?p = "\<lparr>pk_droop = 8 / 10 :: real, pk_cmp = schmitt_trigger_new (5 / 1000)\<rparr>"
  let ?z = "\<lparr>on_pk = ?p, on_min_samples = 0 :: 64 word, on_state = False, on_count = 0,
              on_current_peak = 0 :: real\<rparr>"
  have h: "\<not> on_count ?z < on_min_samples ?z"
    by simp
  have pk: "fst (peak_call schmitt_trigger_call ?p 1 1)"
    by (simp add: peak_call_def schmitt_trigger_call_def schmitt_trigger_new_def)
  from h pk onset_call_past_window [OF h, of schmitt_trigger_call 1 1]
  show ?thesis
    by simp
qed

subsection \<open>The latched peak\<close>

lemma onset_call_current_peak:
  fixes z :: "('f::{ord,times}, 'c, ('w::len) word) onset"
  shows "on_current_peak (snd (onset_call cmp z s env))
       = (if \<not> on_state z \<and> on_state (snd (onset_call cmp z s env)) then s else on_current_peak z)"
  by (cases "peak_call cmp (on_pk z) s env")
     (simp add: onset_call_def Let_def)

lemma onset_call_rising:
  fixes z :: "('f::{ord,times}, 'c, ('w::len) word) onset"
  assumes "\<not> on_state z" and "on_state (snd (onset_call cmp z s env))"
  shows "on_current_peak z < s"
  using assms
  by (cases "peak_call cmp (on_pk z) s env")
     (simp add: onset_call_def Let_def split: if_splits)

text \<open>From a fresh instance on, the latched peak is never below zero.\<close>

lemma onset_new_current_peak: "onset_new mk_cmp min_period sps = Some z \<Longrightarrow> on_current_peak z = 0"
  by (auto simp: onset_new_def split: option.splits)

lemma onset_apply_nonneg:
  fixes z :: "('f::{order,times,zero}, 'c, ('w::len) word) onset"
  assumes "0 \<le> on_current_peak z"
  shows "0 \<le> on_current_peak (onset_apply cmp z op)"
proof (cases op)
  case (Call s env)
  show ?thesis
  proof (cases "\<not> on_state z \<and> on_state (snd (onset_call cmp z s env))")
    case True
    then have "on_current_peak z < s"
      using onset_call_rising [of z cmp s env] by simp
    with assms have "0 \<le> s"
      by (meson le_less_trans less_imp_le)
    with True show ?thesis
      by (simp add: Call onset_call_current_peak)
  next
    case False
    then have "on_current_peak (snd (onset_call cmp z s env)) = on_current_peak z"
      by (auto simp: onset_call_current_peak)
    with assms show ?thesis
      by (simp add: Call)
  qed
next
  case Reset
  then show ?thesis by (simp add: onset_reset_def)
next
  case Peak_val
  with assms show ?thesis by simp
qed

lemma onset_run_nonneg:
  fixes z :: "('f::{order,times,zero}, 'c, ('w::len) word) onset"
  shows "0 \<le> on_current_peak z \<Longrightarrow> 0 \<le> on_current_peak (onset_run cmp z ops)"
  by (induction ops arbitrary: z) (simp_all add: onset_apply_nonneg)

text \<open>
  Claim C6.  Take any sequence \<open>ops\<close> of operations on a fresh instance and
  any next operation \<open>op\<close>.  If \<open>op\<close> strictly decreases the latched peak, it is
  \<^verbatim>\<open>reset()\<close>, and the new value is zero.  If \<open>op\<close> strictly increases it, it is
  a call of the operator on which the state goes from quiet to active, with a
  sample strictly greater than the value latched before, and this sample is the
  new latched value.  Every other operation (neither \<^verbatim>\<open>reset()\<close> nor a call going
  from quiet to active) leaves the latched peak unchanged.
\<close>

theorem onset_current_peak_changes:
  fixes z0 :: "('f::{order,times,zero,numeral,inverse}, 'c, ('w::len) word) onset"
  assumes "onset_new mk_cmp min_period sps = Some z0"
  shows "(on_current_peak (onset_apply cmp (onset_run cmp z0 ops) op)
            < on_current_peak (onset_run cmp z0 ops) \<longrightarrow>
          op = Reset \<and> on_current_peak (onset_apply cmp (onset_run cmp z0 ops) op) = 0)
       \<and> (on_current_peak (onset_run cmp z0 ops)
            < on_current_peak (onset_apply cmp (onset_run cmp z0 ops) op) \<longrightarrow>
          (\<exists>s env. op = Call s env
             \<and> \<not> on_state (onset_run cmp z0 ops)
             \<and> on_state (onset_apply cmp (onset_run cmp z0 ops) op)
             \<and> on_current_peak (onset_run cmp z0 ops) < s
             \<and> on_current_peak (onset_apply cmp (onset_run cmp z0 ops) op) = s))
       \<and> (op \<noteq> Reset
          \<and> \<not> (\<not> on_state (onset_run cmp z0 ops) \<and> on_state (onset_apply cmp (onset_run cmp z0 ops) op)) \<longrightarrow>
          on_current_peak (onset_apply cmp (onset_run cmp z0 ops) op)
            = on_current_peak (onset_run cmp z0 ops))"
proof -
  define z where "z = onset_run cmp z0 ops"
  have "0 \<le> on_current_peak z0"
    using assms by (simp add: onset_new_current_peak)
  then have nonneg: "0 \<le> on_current_peak z"
    unfolding z_def by (rule onset_run_nonneg)
  have ?thesis if "op = Reset"
  proof -
    have "on_current_peak (onset_apply cmp z op) = 0"
      using that by (simp add: onset_reset_def)
    moreover have "\<not> on_current_peak z < 0"
      using nonneg by (simp add: leD)
    ultimately show ?thesis
      using that by (simp add: z_def)
  qed
  moreover have ?thesis if "op = Peak_val"
    using that by simp
  moreover have ?thesis if op: "op = Call s env" for s env
  proof (cases "\<not> on_state z \<and> on_state (snd (onset_call cmp z s env))")
    case True
    then have less: "on_current_peak z < s"
      using onset_call_rising [of z cmp s env] by simp
    have new: "on_current_peak (snd (onset_call cmp z s env)) = s"
      using True by (simp add: onset_call_current_peak)
    have "\<not> s < on_current_peak z"
      using less by (simp add: less_not_sym)
    with True less new show ?thesis
      by (simp add: op z_def [symmetric])
  next
    case False
    then have "on_current_peak (snd (onset_call cmp z s env)) = on_current_peak z"
      by (auto simp: onset_call_current_peak)
    with False show ?thesis
      by (simp add: op z_def [symmetric])
  qed
  ultimately show ?thesis
    by (cases op) blast+
qed

theorem onset_current_peak_changes_witness:
  "onset_new schmitt_trigger_new 0 44100 = Some 
        \<lparr>on_pk = \<lparr>pk_droop = onset_droop, pk_cmp = schmitt_trigger_new onset_hysteresis\<rparr>,
          on_min_samples = 0 :: 64 word, on_state = False, on_count = 0,
          on_current_peak = 0 :: real\<rparr>
   \<and> on_current_peak (onset_apply schmitt_trigger_call (onset_run schmitt_trigger_call 
        \<lparr>on_pk = \<lparr>pk_droop = onset_droop, pk_cmp = schmitt_trigger_new onset_hysteresis\<rparr>,
          on_min_samples = 0 :: 64 word, on_state = False, on_count = 0,
          on_current_peak = 0 :: real\<rparr> [Call 1 1]) Reset)
       < on_current_peak (onset_run schmitt_trigger_call 
        \<lparr>on_pk = \<lparr>pk_droop = onset_droop, pk_cmp = schmitt_trigger_new onset_hysteresis\<rparr>,
          on_min_samples = 0 :: 64 word, on_state = False, on_count = 0,
          on_current_peak = 0 :: real\<rparr> [Call 1 1])
   \<and> on_current_peak (onset_apply schmitt_trigger_call (onset_run schmitt_trigger_call 
        \<lparr>on_pk = \<lparr>pk_droop = onset_droop, pk_cmp = schmitt_trigger_new onset_hysteresis\<rparr>,
          on_min_samples = 0 :: 64 word, on_state = False, on_count = 0,
          on_current_peak = 0 :: real\<rparr> [Call 1 1]) Reset) = 0
   \<and> on_current_peak (onset_run schmitt_trigger_call 
        \<lparr>on_pk = \<lparr>pk_droop = onset_droop, pk_cmp = schmitt_trigger_new onset_hysteresis\<rparr>,
          on_min_samples = 0 :: 64 word, on_state = False, on_count = 0,
          on_current_peak = 0 :: real\<rparr> [])
       < on_current_peak (onset_apply schmitt_trigger_call (onset_run schmitt_trigger_call 
        \<lparr>on_pk = \<lparr>pk_droop = onset_droop, pk_cmp = schmitt_trigger_new onset_hysteresis\<rparr>,
          on_min_samples = 0 :: 64 word, on_state = False, on_count = 0,
          on_current_peak = 0 :: real\<rparr> []) (Call 1 1))
   \<and> on_state (onset_apply schmitt_trigger_call (onset_run schmitt_trigger_call 
        \<lparr>on_pk = \<lparr>pk_droop = onset_droop, pk_cmp = schmitt_trigger_new onset_hysteresis\<rparr>,
          on_min_samples = 0 :: 64 word, on_state = False, on_count = 0,
          on_current_peak = 0 :: real\<rparr> []) (Call 1 1))
   \<and> on_current_peak (onset_apply schmitt_trigger_call (onset_run schmitt_trigger_call 
        \<lparr>on_pk = \<lparr>pk_droop = onset_droop, pk_cmp = schmitt_trigger_new onset_hysteresis\<rparr>,
          on_min_samples = 0 :: 64 word, on_state = False, on_count = 0,
          on_current_peak = 0 :: real\<rparr> [Call 1 1]) (Call 2 2))
       = on_current_peak (onset_run schmitt_trigger_call 
        \<lparr>on_pk = \<lparr>pk_droop = onset_droop, pk_cmp = schmitt_trigger_new onset_hysteresis\<rparr>,
          on_min_samples = 0 :: 64 word, on_state = False, on_count = 0,
          on_current_peak = 0 :: real\<rparr> [Call 1 1])"
proof -
  let ?z0 = "
        \<lparr>on_pk = \<lparr>pk_droop = onset_droop, pk_cmp = schmitt_trigger_new onset_hysteresis\<rparr>,
          on_min_samples = 0 :: 64 word, on_state = False, on_count = 0,
          on_current_peak = 0 :: real\<rparr>"
  have c: "onset_new schmitt_trigger_new 0 44100 = Some ?z0"
    by (simp add: onset_new_def size_t_of_double_def)
  have first: "onset_call schmitt_trigger_call ?z0 1 1
      = (True, ?z0\<lparr>on_pk := \<lparr>pk_droop = onset_droop,
                               pk_cmp = \<lparr>st_hysteresis = onset_hysteresis, st_y = True\<rparr>\<rparr>,
                     on_count := 0, on_state := True, on_current_peak := 1\<rparr>)"
    by (simp add: onset_call_def peak_call_def schmitt_trigger_call_def schmitt_trigger_new_def
        onset_droop_def onset_hysteresis_def Let_def)
  have second: "on_current_peak (snd (onset_call schmitt_trigger_call
        (snd (onset_call schmitt_trigger_call ?z0 1 1)) 2 2)) = 1"
    unfolding first
    by (simp add: onset_call_def peak_call_def schmitt_trigger_call_def
        onset_droop_def onset_hysteresis_def Let_def)
  from c first second
    onset_current_peak_changes [OF c, of schmitt_trigger_call "[Call 1 1]" Reset]
    onset_current_peak_changes [OF c, of schmitt_trigger_call "[]" "Call 1 1"]
    onset_current_peak_changes [OF c, of schmitt_trigger_call "[Call 1 1]" "Call 2 2"]
  show ?thesis
    by (simp add: onset_reset_def)
qed

end
